theory Spec2Isabelle
  imports Main "HOL-Library.Word"
begin

unbundle bit_operations_syntax

section \<open>JavaScript strings\<close>

text \<open>
  A JavaScript string is a sequence of 16-bit code units, and \<open>length\<close> counts code
  units.  String literals of the source are written \<open>js ''...''\<close>.
\<close>

type_synonym byte = "8 word"
type_synonym jschar = "16 word"
type_synonym jsstring = "jschar list"

definition js :: "string \<Rightarrow> jsstring" where
  "js s = map of_char s"

text \<open>
  \<open>String.prototype.trim\<close> removes leading and trailing white space and line
  terminators (ECMAScript \<open>WhiteSpace\<close> and \<open>LineTerminator\<close>).
\<close>

definition isWhiteSpace :: "jschar \<Rightarrow> bool" where
  "isWhiteSpace c =
     (c \<in> set [0x09, 0x0A, 0x0B, 0x0C, 0x0D, 0x20, 0xA0, 0x1680, 0x2028, 0x2029,
                   0x202F, 0x205F, 0x3000, 0xFEFF]
      \<or> (0x2000 \<le> c \<and> c \<le> 0x200A))"

definition trim :: "jsstring \<Rightarrow> jsstring" where
  "trim s = rev (dropWhile isWhiteSpace (rev (dropWhile isWhiteSpace s)))"

text \<open>
  \<open>String.prototype.toLowerCase\<close>.  In a string of ASCII code units the letters
  \<open>A\<close> to \<open>Z\<close> become \<open>a\<close> to \<open>z\<close> and nothing else changes.  What becomes of
  a string with a code unit outside ASCII is laid down by the Unicode case tables of the
  runtime, which are no part of the program: \<open>table\<close> is the function of the runtime
  on such strings, and nothing is assumed of it.
\<close>

definition isAscii :: "jschar \<Rightarrow> bool" where
  "isAscii c = (c < 0x80)"

definition lowerUnit :: "jschar \<Rightarrow> jschar" where
  "lowerUnit c = (if 0x41 \<le> c \<and> c \<le> 0x5A then c + 0x20 else c)"

definition toLowerCase :: "(jsstring \<Rightarrow> jsstring) \<Rightarrow> jsstring \<Rightarrow> jsstring" where
  "toLowerCase table s = (if list_all isAscii s then map lowerUnit s else table s)"

text \<open>Decimal rendering of an integer, as string concatenation with a number does.\<close>

fun digits :: "nat \<Rightarrow> jsstring" where
  "digits n = (if n < 10 then [of_nat (48 + n)] else digits (n div 10) @ [of_nat (48 + n mod 10)])"

declare digits.simps [simp del]

definition numberToString :: "int \<Rightarrow> jsstring" where
  "numberToString t = (if t < 0 then 0x2D # digits (nat (- t)) else digits (nat t))"

section \<open>Regular expressions\<close>

text \<open>
  The two regular expressions of the source are kept as regular expressions; matching
  is by derivatives.  \<open>rx_match r s\<close> is a match of the whole of \<open>s\<close>.
\<close>

datatype rx = Null | Eps | Cls "jschar \<Rightarrow> bool" | Alt rx rx | Cat rx rx | Star rx

definition Plus :: "rx \<Rightarrow> rx" where
  "Plus r = Cat r (Star r)"

fun nullable :: "rx \<Rightarrow> bool" where
  "nullable Null = False"
| "nullable Eps = True"
| "nullable (Cls P) = False"
| "nullable (Alt r s) = (nullable r \<or> nullable s)"
| "nullable (Cat r s) = (nullable r \<and> nullable s)"
| "nullable (Star r) = True"

fun deriv :: "jschar \<Rightarrow> rx \<Rightarrow> rx" where
  "deriv c Null = Null"
| "deriv c Eps = Null"
| "deriv c (Cls P) = (if P c then Eps else Null)"
| "deriv c (Alt r s) = Alt (deriv c r) (deriv c s)"
| "deriv c (Cat r s) =
     (if nullable r then Alt (Cat (deriv c r) s) (deriv c s) else Cat (deriv c r) s)"
| "deriv c (Star r) = Cat (deriv c r) (Star r)"

definition rx_match :: "rx \<Rightarrow> jsstring \<Rightarrow> bool" where
  "rx_match r s = nullable (foldl (\<lambda>r c. deriv c r) r s)"

text \<open>Character classes \<open>[a-z]\<close>, \<open>[A-Z]\<close>, \<open>\d\<close> and \<open>.\<close> (no flags are set).\<close>

definition lowerAZ :: "jschar \<Rightarrow> bool" where
  "lowerAZ c = (0x61 \<le> c \<and> c \<le> 0x7A)"

definition upperAZ :: "jschar \<Rightarrow> bool" where
  "upperAZ c = (0x41 \<le> c \<and> c \<le> 0x5A)"

definition digit09 :: "jschar \<Rightarrow> bool" where
  "digit09 c = (0x30 \<le> c \<and> c \<le> 0x39)"

definition anyChar :: "jschar \<Rightarrow> bool" where
  "anyChar c = True"

definition isLineTerminator :: "jschar \<Rightarrow> bool" where
  "isLineTerminator c = (c \<in> set [0x0A, 0x0D, 0x2028, 0x2029])"

definition dot :: "jschar \<Rightarrow> bool" where
  "dot c = (\<not> isLineTerminator c)"

definition isChar :: "char \<Rightarrow> jschar \<Rightarrow> bool" where
  "isChar x c = (c = of_char x)"

text \<open>\<open>[a-zA-Z0-9._%+-]\<close>, \<open>[a-zA-Z0-9.-]\<close> and \<open>[a-zA-Z]\<close>.\<close>

definition localChar :: "jschar \<Rightarrow> bool" where
  "localChar c = (lowerAZ c \<or> upperAZ c \<or> digit09 c \<or> c \<in> set (js ''._%+-''))"

definition domainChar :: "jschar \<Rightarrow> bool" where
  "domainChar c = (lowerAZ c \<or> upperAZ c \<or> digit09 c \<or> c \<in> set (js ''.-''))"

definition letter :: "jschar \<Rightarrow> bool" where
  "letter c = (lowerAZ c \<or> upperAZ c)"

text \<open>\<^verbatim>\<open>/^[a-zA-Z0-9._%+-]+@[a-zA-Z0-9.-]+\.[a-zA-Z]{2,}$/\<close>\<close>

definition emailRegex :: rx where
  "emailRegex =
     Cat (Plus (Cls localChar))
      (Cat (Cls (isChar CHR ''@''))
        (Cat (Plus (Cls domainChar))
          (Cat (Cls (isChar CHR ''.''))
            (Cat (Cls letter) (Plus (Cls letter))))))"

definition isValidEmail :: "jsstring \<Rightarrow> bool" where
  "isValidEmail email = rx_match emailRegex email"

text \<open>
  \<^verbatim>\<open>/(?=.*[a-z])(?=.*[A-Z])(?=.*\d)/.test(password)\<close>: the expression is not anchored,
  so \<open>test\<close> looks for a position of the string at which all three lookaheads
  succeed; a lookahead \<open>(?=r)\<close> succeeds when \<open>r\<close> matches a prefix of the rest.
\<close>

fun tails :: "'a list \<Rightarrow> 'a list list" where
  "tails [] = [[]]"
| "tails (x # xs) = (x # xs) # tails xs"

definition lookahead :: "rx \<Rightarrow> jsstring \<Rightarrow> bool" where
  "lookahead r s = rx_match (Cat r (Star (Cls anyChar))) s"

definition passwordRegexTest :: "jsstring \<Rightarrow> bool" where
  "passwordRegexTest password =
     list_ex (\<lambda>s. lookahead (Cat (Star (Cls dot)) (Cls lowerAZ)) s
                \<and> lookahead (Cat (Star (Cls dot)) (Cls upperAZ)) s
                \<and> lookahead (Cat (Star (Cls dot)) (Cls digit09)) s)
       (tails password)"

section \<open>Password hashing\<close>

text \<open>
  \<open>TextEncoder.encode\<close> turns the string into Unicode scalar values (a surrogate pair
  is one code point, a surrogate without its partner becomes U+FFFD) and writes them in
  UTF-8.
\<close>

definition isHighSurrogate :: "jschar \<Rightarrow> bool" where
  "isHighSurrogate c = (0xD800 \<le> c \<and> c \<le> 0xDBFF)"

definition isLowSurrogate :: "jschar \<Rightarrow> bool" where
  "isLowSurrogate c = (0xDC00 \<le> c \<and> c \<le> 0xDFFF)"

definition scalarOfUnit :: "jschar \<Rightarrow> nat" where
  "scalarOfUnit c = (if isHighSurrogate c \<or> isLowSurrogate c then 0xFFFD else unat c)"

fun codePoints :: "jsstring \<Rightarrow> nat list" where
  "codePoints [] = []"
| "codePoints [c] = [scalarOfUnit c]"
| "codePoints (c # d # cs) =
     (if isHighSurrogate c \<and> isLowSurrogate d
      then (0x10000 + (unat c - 0xD800) * 0x400 + (unat d - 0xDC00)) # codePoints cs
      else scalarOfUnit c # codePoints (d # cs))"

text \<open>The bytes of a code point in UTF-8, as numbers.\<close>

definition utf8 :: "nat \<Rightarrow> nat list" where
  "utf8 cp =
     (if cp < 0x80 then [cp]
      else if cp < 0x800 then [0xC0 + cp div 64, 0x80 + cp mod 64]
      else if cp < 0x10000 then
        [0xE0 + cp div 4096, 0x80 + cp div 64 mod 64, 0x80 + cp mod 64]
      else
        [0xF0 + cp div 262144, 0x80 + cp div 4096 mod 64,
         0x80 + cp div 64 mod 64, 0x80 + cp mod 64])"

definition encode :: "jsstring \<Rightarrow> byte list" where
  "encode s = map of_nat (concat (map utf8 (codePoints s)))"

text \<open>\<open>crypto.subtle.digest('SHA-256', data)\<close>: SHA-256 as in FIPS 180-4.\<close>

definition K256 :: "32 word list" where
  "K256 =
   [0x428A2F98, 0x71374491, 0xB5C0FBCF, 0xE9B5DBA5, 0x3956C25B, 0x59F111F1, 0x923F82A4, 0xAB1C5ED5,
    0xD807AA98, 0x12835B01, 0x243185BE, 0x550C7DC3, 0x72BE5D74, 0x80DEB1FE, 0x9BDC06A7, 0xC19BF174,
    0xE49B69C1, 0xEFBE4786, 0x0FC19DC6, 0x240CA1CC, 0x2DE92C6F, 0x4A7484AA, 0x5CB0A9DC, 0x76F988DA,
    0x983E5152, 0xA831C66D, 0xB00327C8, 0xBF597FC7, 0xC6E00BF3, 0xD5A79147, 0x06CA6351, 0x14292967,
    0x27B70A85, 0x2E1B2138, 0x4D2C6DFC, 0x53380D13, 0x650A7354, 0x766A0ABB, 0x81C2C92E, 0x92722C85,
    0xA2BFE8A1, 0xA81A664B, 0xC24B8B70, 0xC76C51A3, 0xD192E819, 0xD6990624, 0xF40E3585, 0x106AA070,
    0x19A4C116, 0x1E376C08, 0x2748774C, 0x34B0BCB5, 0x391C0CB3, 0x4ED8AA4A, 0x5B9CCA4F, 0x682E6FF3,
    0x748F82EE, 0x78A5636F, 0x84C87814, 0x8CC70208, 0x90BEFFFA, 0xA4506CEB, 0xBEF9A3F7, 0xC67178F2]"

definition H256 :: "32 word list" where
  "H256 = [0x6A09E667, 0xBB67AE85, 0x3C6EF372, 0xA54FF53A,
           0x510E527F, 0x9B05688C, 0x1F83D9AB, 0x5BE0CD19]"

definition rotr :: "nat \<Rightarrow> 32 word \<Rightarrow> 32 word" where
  "rotr n x = word_rotr n x"

definition Ch :: "32 word \<Rightarrow> 32 word \<Rightarrow> 32 word \<Rightarrow> 32 word" where
  "Ch x y z = (x AND y) XOR (NOT x AND z)"

definition Maj :: "32 word \<Rightarrow> 32 word \<Rightarrow> 32 word \<Rightarrow> 32 word" where
  "Maj x y z = (x AND y) XOR (x AND z) XOR (y AND z)"

definition bsig0 :: "32 word \<Rightarrow> 32 word" where
  "bsig0 x = rotr 2 x XOR rotr 13 x XOR rotr 22 x"

definition bsig1 :: "32 word \<Rightarrow> 32 word" where
  "bsig1 x = rotr 6 x XOR rotr 11 x XOR rotr 25 x"

definition ssig0 :: "32 word \<Rightarrow> 32 word" where
  "ssig0 x = rotr 7 x XOR rotr 18 x XOR drop_bit 3 x"

definition ssig1 :: "32 word \<Rightarrow> 32 word" where
  "ssig1 x = rotr 17 x XOR rotr 19 x XOR drop_bit 10 x"

definition bytes32 :: "32 word \<Rightarrow> byte list" where
  "bytes32 w = [ucast (drop_bit 24 w), ucast (drop_bit 16 w), ucast (drop_bit 8 w), ucast w]"

definition bytes64 :: "64 word \<Rightarrow> byte list" where
  "bytes64 w = bytes32 (ucast (drop_bit 32 w)) @ bytes32 (ucast w)"

text \<open>Padding: a one bit, zero bits up to 56 modulo 64 bytes, the bit length in 64 bits.\<close>

definition sha_pad :: "byte list \<Rightarrow> byte list" where
  "sha_pad m =
     m @ [0x80] @ replicate ((119 - length m mod 64) mod 64) 0 @ bytes64 (of_nat (8 * length m))"

fun be_words :: "byte list \<Rightarrow> 32 word list" where
  "be_words (a # b # c # d # bs) =
     (push_bit 24 (ucast a) OR push_bit 16 (ucast b) OR push_bit 8 (ucast c) OR ucast d)
       # be_words bs"
| "be_words _ = []"

fun blocks :: "nat \<Rightarrow> 32 word list \<Rightarrow> 32 word list list" where
  "blocks 0 ws = []"
| "blocks (Suc k) ws = take 16 ws # blocks k (drop 16 ws)"

text \<open>The message schedule; \<open>w\<close> holds the words computed so far, the newest first.\<close>

fun schedule :: "nat \<Rightarrow> 32 word list \<Rightarrow> 32 word list" where
  "schedule 0 w = rev w"
| "schedule (Suc k) w =
     schedule k ((ssig1 (w ! 1) + w ! 6 + ssig0 (w ! 14) + w ! 15) # w)"

fun rounds :: "32 word list \<Rightarrow> 32 word list \<Rightarrow> 32 word list \<Rightarrow> 32 word list" where
  "rounds [a, b, c, d, e, f, g, h] (k # ks) (w # ws) =
     (let t1 = h + bsig1 e + Ch e f g + k + w;
          t2 = bsig0 a + Maj a b c
      in rounds [t1 + t2, a, b, c, d + t1, e, f, g] ks ws)"
| "rounds v ks ws = v"

definition compress :: "32 word list \<Rightarrow> 32 word list \<Rightarrow> 32 word list" where
  "compress h block = map2 (+) h (rounds h K256 (schedule 48 (rev block)))"

definition sha256 :: "byte list \<Rightarrow> byte list" where
  "sha256 m =
     (let ws = be_words (sha_pad m)
      in concat (map bytes32 (foldl compress H256 (blocks (length ws div 16) ws))))"

text \<open>\<open>b.toString(16).padStart(2, '0')\<close> for a byte \<open>b\<close>.\<close>

definition hexDigit :: "nat \<Rightarrow> jschar" where
  "hexDigit n = (if n < 10 then of_nat (48 + n) else of_nat (87 + n))"

definition hex2 :: "byte \<Rightarrow> jsstring" where
  "hex2 b = [hexDigit (unat b div 16), hexDigit (unat b mod 16)]"

definition hashPassword :: "jsstring \<Rightarrow> jsstring" where
  "hashPassword password = concat (map hex2 (sha256 (encode (password @ js ''NCLEX_SALT_2024''))))"

definition verifyPassword :: "jsstring \<Rightarrow> jsstring \<Rightarrow> bool" where
  "verifyPassword password hash = (hashPassword password = hash)"

section \<open>Data model\<close>

text \<open>
  Times are milliseconds since the epoch, which is what a \<open>Date\<close> holds;
  \<open>toISOString\<close> and \<open>new Date(string)\<close> convert such a value to text and back
  without loss.  A property that an object may lack is an \<open>option\<close>.
\<close>

type_synonym timestamp = int

record user_preferences =
  rememberMe :: bool
  emailNotifications :: bool
  studyReminders :: bool

record user_profile =
  graduationDate :: "jsstring option"
  schoolName :: jsstring
  examDate :: "jsstring option"
  studyGoal :: nat

text \<open>
  A user object.  \<open>uid\<close> is its \<open>id\<close> property: the object store \<open>users\<close> has
  the key path \<open>id\<close> and a key generator, so a stored record carries its key there,
  and the object literal built by \<open>registerUser\<close> has no such property.
\<close>

record user =
  uid :: "nat option"
  email :: jsstring
  username :: jsstring
  firstName :: jsstring
  lastName :: jsstring
  passwordHash :: "jsstring option"
  createdAt :: timestamp
  lastLoginAt :: "timestamp option"
  isActive :: bool
  role :: jsstring
  preferences :: user_preferences
  profile :: user_profile
  updatedAt :: "timestamp option"

record session =
  sessionId :: jsstring
  userId :: nat
  sess_createdAt :: timestamp
  expiresAt :: timestamp
  sess_rememberMe :: bool
  sess_isActive :: bool

record progress =
  prog_userId :: nat
  questionsAnswered :: "nat option"
  questionsCorrect :: "nat option"
  currentStreak :: "nat option"
  longestStreak :: "nat option"
  studyTime :: "nat option"
  categoriesProgress :: "(jsstring \<times> nat) list option"
  flaggedQuestions :: "nat list option"
  masteredQuestions :: "nat list option"
  weakAreas :: "jsstring list option"
  prog_studyGoal :: "nat option"
  dailyProgress :: "nat list option"
  lastStudyDate :: "timestamp option"
  prog_createdAt :: "timestamp option"
  lastUpdated :: "timestamp option"

text \<open>The argument of \<open>registerUser\<close>.\<close>

record user_data =
  in_email :: jsstring
  in_username :: jsstring
  in_firstName :: jsstring
  in_lastName :: jsstring
  in_password :: jsstring
  in_rememberMe :: bool
  in_graduationDate :: "jsstring option"
  in_schoolName :: jsstring
  in_examDate :: "jsstring option"
  in_studyGoal :: "nat option"

text \<open>The \<open>updates\<close> of \<open>updateUserProfile\<close>: the properties it overrides.\<close>

record user_updates =
  up_id :: "nat option"
  up_email :: "jsstring option"
  up_username :: "jsstring option"
  up_firstName :: "jsstring option"
  up_lastName :: "jsstring option"
  up_passwordHash :: "jsstring option"
  up_createdAt :: "timestamp option"
  up_lastLoginAt :: "timestamp option"
  up_isActive :: "bool option"
  up_role :: "jsstring option"
  up_preferences :: "user_preferences option"
  up_profile :: "user_profile option"

text \<open>The \<open>progressData\<close> of \<open>updateUserProgress\<close>.\<close>

record progress_data =
  pd_userId :: "nat option"
  pd_questionsAnswered :: "nat option"
  pd_questionsCorrect :: "nat option"
  pd_currentStreak :: "nat option"
  pd_longestStreak :: "nat option"
  pd_studyTime :: "nat option"
  pd_categoriesProgress :: "(jsstring \<times> nat) list option"
  pd_flaggedQuestions :: "nat list option"
  pd_masteredQuestions :: "nat list option"
  pd_weakAreas :: "jsstring list option"
  pd_studyGoal :: "nat option"
  pd_dailyProgress :: "nat list option"
  pd_lastStudyDate :: "timestamp option"
  pd_createdAt :: "timestamp option"

text \<open>
  The state: whether the field \<open>db\<close> holds the open database (it is \<open>null\<close> from
  the constructor until \<open>initDatabase\<close> has succeeded, and stays so when that fails),
  the three object stores of the database (with the key generator of \<open>users\<close>), the
  entries of \<open>localStorage\<close> and \<open>sessionStorage\<close> the module uses, and the field
  \<open>currentUser\<close>.
\<close>

record system =
  dbOpen :: bool
  users :: "user list"
  nextUserId :: nat
  userProgress :: "nat \<rightharpoonup> progress"
  sessions :: "jsstring \<rightharpoonup> session"
  local_session_id :: "jsstring option"
  session_session_id :: "jsstring option"
  local_user_data :: "user option"
  currentUser :: "user option"

text \<open>An empty database, opened, and nothing in the two storages.\<close>

definition emptySystem :: system where
  "emptySystem =
     \<lparr>dbOpen = True, users = [], nextUserId = 1, userProgress = Map.empty, sessions = Map.empty,
      local_session_id = None, session_session_id = None, local_user_data = None,
      currentUser = None\<rparr>"

text \<open>
  What a call reads from the runtime while it creates a session: \<open>Date.now()\<close> and
  the random suffix in \<open>generateSessionId\<close>, then the two \<open>new Date()\<close> of
  \<open>createSession\<close>, in this order.
\<close>

record session_env =
  idTime :: timestamp
  idRandom :: jsstring
  expiresBase :: timestamp
  createdTime :: timestamp

text \<open>
  The \<open>message\<close> of a failure result: a literal of the source, or the message of an
  error raised by the runtime, which is passed on as it is.  A call that has no
  \<open>catch\<close> of its own is rejected with the error: its result is then \<open>Inl\<close> of the
  message.
\<close>

datatype native_error = ConstraintError | DataError | RangeError | TypeError

datatype message = Message string | Native native_error

datatype validation = Valid | Invalid string

datatype auth_result = AuthSuccess user session | AuthFailure message

datatype logout_result = LogoutSuccess

datatype profile_result = ProfileSuccess user | ProfileFailure message

datatype progress_result = ProgressSuccess progress | ProgressFailure message

section \<open>Validation\<close>

definition validateUserData :: "user_data \<Rightarrow> validation" where
  "validateUserData d =
     (if in_email d = [] \<or> \<not> isValidEmail (in_email d) then
        Invalid ''Please enter a valid email address''
      else if in_username d = [] \<or> length (in_username d) < 3 then
        Invalid ''Username must be at least 3 characters long''
      else if in_firstName d = [] \<or> length (in_firstName d) < 2 then
        Invalid ''First name must be at least 2 characters long''
      else if in_lastName d = [] \<or> length (in_lastName d) < 2 then
        Invalid ''Last name must be at least 2 characters long''
      else if in_password d = [] \<or> length (in_password d) < 8 then
        Invalid ''Password must be at least 8 characters long''
      else if \<not> passwordRegexTest (in_password d) then
        Invalid ''Password must contain at least one uppercase letter, one lowercase letter, and one number''
      else Valid)"

section \<open>The object stores\<close>

text \<open>
  Every function that reads or writes a store begins with \<open>this.db.transaction(..)\<close>,
  which raises a \<open>TypeError\<close> while \<open>this.db\<close> is \<open>null\<close>; the promise the
  function returns is then rejected with it, and nothing is read or written.
\<close>

definition transaction :: "system \<Rightarrow> 'a \<Rightarrow> message + 'a" where
  "transaction s r = (if dbOpen s then Inr r else Inl (Native TypeError))"

definition getUserByEmail :: "system \<Rightarrow> jsstring \<Rightarrow> message + user option" where
  "getUserByEmail s e = transaction s (find (\<lambda>u. email u = e) (users s))"

definition getUserById :: "system \<Rightarrow> nat \<Rightarrow> message + user option" where
  "getUserById s k = transaction s (find (\<lambda>u. uid u = Some k) (users s))"

text \<open>
  The indexes \<open>email\<close> and \<open>username\<close> are unique: a record cannot be written while
  another record, under another key, has the same email or the same username.
\<close>

definition indexConflict :: "user list \<Rightarrow> nat \<Rightarrow> user \<Rightarrow> bool" where
  "indexConflict us key u =
     list_ex (\<lambda>v. uid v \<noteq> Some key \<and> (email v = email u \<or> username v = username u)) us"

definition hasKey :: "user list \<Rightarrow> nat \<Rightarrow> bool" where
  "hasKey us key = list_ex (\<lambda>v. uid v = Some key) us"

definition keyFor :: "system \<Rightarrow> user \<Rightarrow> nat" where
  "keyFor s u = (case uid u of None \<Rightarrow> nextUserId s | Some k \<Rightarrow> k)"

text \<open>
  \<open>store.add(user)\<close>: the key comes from the key generator when the object has no
  \<open>id\<close>; the record stored is a copy of the object with the key in it.  A failed
  request changes nothing.
\<close>

definition storeUser :: "system \<Rightarrow> user \<Rightarrow> message + nat \<times> system" where
  "storeUser s u =
     (let key = keyFor s u in
      if \<not> dbOpen s then Inl (Native TypeError)
      else if hasKey (users s) key \<or> indexConflict (users s) key u
      then Inl (Native ConstraintError)
      else Inr (key, s\<lparr>users := users s @ [u\<lparr>uid := Some key\<rparr>],
                        nextUserId := max (nextUserId s) (key + 1)\<rparr>))"

definition putUser :: "user list \<Rightarrow> nat \<Rightarrow> user \<Rightarrow> user list" where
  "putUser us key u =
     (if hasKey us key then map (\<lambda>v. if uid v = Some key then u else v) us else us @ [u])"

text \<open>\<open>store.put(user)\<close>: as \<open>add\<close>, but a record under the same key is replaced.\<close>

definition updateUser :: "system \<Rightarrow> user \<Rightarrow> message + system" where
  "updateUser s u =
     (let key = keyFor s u in
      if \<not> dbOpen s then Inl (Native TypeError)
      else if indexConflict (users s) key u then Inl (Native ConstraintError)
      else Inr (s\<lparr>users := putUser (users s) key (u\<lparr>uid := Some key\<rparr>),
                   nextUserId := max (nextUserId s) (key + 1)\<rparr>))"

text \<open>
  \<open>updateLastLogin(user.id)\<close>.  Without an \<open>id\<close> the argument is \<open>undefined\<close>,
  which is no key: \<open>store.get\<close> raises, once the transaction is there.
\<close>

definition updateLastLogin :: "system \<Rightarrow> nat option \<Rightarrow> timestamp \<Rightarrow> message + system" where
  "updateLastLogin s k now =
     (case k of
        None \<Rightarrow> (case transaction s () of Inl m \<Rightarrow> Inl m | Inr _ \<Rightarrow> Inl (Native DataError))
      | Some key \<Rightarrow>
          (case getUserById s key of
             Inl m \<Rightarrow> Inl m
           | Inr None \<Rightarrow> Inr s
           | Inr (Some user) \<Rightarrow> updateUser s (user\<lparr>lastLoginAt := Some now\<rparr>)))"

definition getSession :: "system \<Rightarrow> jsstring \<Rightarrow> message + session option" where
  "getSession s sid = transaction s (sessions s sid)"

definition deleteSession :: "system \<Rightarrow> jsstring \<Rightarrow> message + system" where
  "deleteSession s sid = transaction s (s\<lparr>sessions := (sessions s)(sid := None)\<rparr>)"

section \<open>Sessions\<close>

definition generateSessionId :: "timestamp \<Rightarrow> jsstring \<Rightarrow> jsstring" where
  "generateSessionId now random = js ''sess_'' @ numberToString now @ js ''_'' @ random"

definition maxTime :: int where
  "maxTime = 8640000000000000"

text \<open>
  \<open>createSession\<close>.  \<open>toISOString\<close> raises a \<open>RangeError\<close> for a time outside
  the range of \<open>Date\<close>; this happens before the transaction is asked for, and so
  before anything is written.
\<close>

definition createSession ::
  "system \<Rightarrow> nat \<Rightarrow> bool \<Rightarrow> session_env \<Rightarrow> message + session \<times> system" where
  "createSession s key remember env =
     (let sid = generateSessionId (idTime env) (idRandom env);
          expires = expiresBase env
            + (if remember then 30 * 24 * 60 * 60 * 1000 else 12 * 60 * 60 * 1000)
      in if maxTime < \<bar>expires\<bar> then Inl (Native RangeError)
         else if \<not> dbOpen s then Inl (Native TypeError)
         else
           (let sess = \<lparr>sessionId = sid, userId = key,
                         sess_createdAt = createdTime env, expiresAt = expires,
                         sess_rememberMe = remember, sess_isActive = True\<rparr>;
                s1 = s\<lparr>sessions := (sessions s)(sid \<mapsto> sess)\<rparr>
            in Inr (sess,
                    if remember then s1\<lparr>local_session_id := Some sid\<rparr>
                    else s1\<lparr>session_session_id := Some sid\<rparr>)))"

definition isSessionExpired :: "timestamp \<Rightarrow> session \<Rightarrow> bool" where
  "isSessionExpired now sess = (now > expiresAt sess)"

text \<open>
  \<open>localStorage.getItem(..) || sessionStorage.getItem(..)\<close>: the first operand when
  it is truthy (a string that is not empty), the second otherwise.
\<close>

definition truthy :: "jsstring option \<Rightarrow> bool" where
  "truthy x = (case x of None \<Rightarrow> False | Some t \<Rightarrow> t \<noteq> [])"

definition storedSessionId :: "system \<Rightarrow> jsstring option" where
  "storedSessionId s = (if truthy (local_session_id s) then local_session_id s else session_session_id s)"

section \<open>Progress\<close>

definition initializeUserProgress ::
  "system \<Rightarrow> nat \<Rightarrow> timestamp \<Rightarrow> message + progress \<times> system" where
  "initializeUserProgress s key now =
     (let initialProgress =
        \<lparr>prog_userId = key,
         questionsAnswered = Some 0,
         questionsCorrect = Some 0,
         currentStreak = Some 0,
         longestStreak = Some 0,
         studyTime = Some 0,
         categoriesProgress = Some [],
         flaggedQuestions = Some [],
         masteredQuestions = Some [],
         weakAreas = Some [],
         prog_studyGoal = Some 20,
         dailyProgress = Some [],
         lastStudyDate = None,
         prog_createdAt = Some now,
         lastUpdated = None\<rparr>
      in transaction s
           (initialProgress, s\<lparr>userProgress := (userProgress s)(key \<mapsto> initialProgress)\<rparr>))"

text \<open>
  \<open>getUserProgress\<close> asks for its transaction inside a \<open>try\<close>: without a database
  it returns \<open>null\<close>.
\<close>

definition getUserProgress :: "system \<Rightarrow> nat \<Rightarrow> progress option" where
  "getUserProgress s key =
     (case transaction s (userProgress s key) of Inl m \<Rightarrow> None | Inr found \<Rightarrow> found)"

text \<open>\<open>{ userId }\<close>, the object taken when there is no record.\<close>

definition onlyUserId :: "nat \<Rightarrow> progress" where
  "onlyUserId key =
     \<lparr>prog_userId = key, questionsAnswered = None, questionsCorrect = None,
      currentStreak = None, longestStreak = None, studyTime = None, categoriesProgress = None,
      flaggedQuestions = None, masteredQuestions = None, weakAreas = None,
      prog_studyGoal = None, dailyProgress = None, lastStudyDate = None,
      prog_createdAt = None, lastUpdated = None\<rparr>"

text \<open>A property of the second object of a spread replaces that of the first.\<close>

definition spread :: "'a \<Rightarrow> 'a option \<Rightarrow> 'a" where
  "spread old new = (case new of None \<Rightarrow> old | Some v \<Rightarrow> v)"

definition spreadOpt :: "'a option \<Rightarrow> 'a option \<Rightarrow> 'a option" where
  "spreadOpt old new = (case new of None \<Rightarrow> old | Some v \<Rightarrow> Some v)"

definition mergeProgress :: "progress \<Rightarrow> progress_data \<Rightarrow> progress" where
  "mergeProgress p d =
     \<lparr>prog_userId = spread (prog_userId p) (pd_userId d),
      questionsAnswered = spreadOpt (questionsAnswered p) (pd_questionsAnswered d),
      questionsCorrect = spreadOpt (questionsCorrect p) (pd_questionsCorrect d),
      currentStreak = spreadOpt (currentStreak p) (pd_currentStreak d),
      longestStreak = spreadOpt (longestStreak p) (pd_longestStreak d),
      studyTime = spreadOpt (studyTime p) (pd_studyTime d),
      categoriesProgress = spreadOpt (categoriesProgress p) (pd_categoriesProgress d),
      flaggedQuestions = spreadOpt (flaggedQuestions p) (pd_flaggedQuestions d),
      masteredQuestions = spreadOpt (masteredQuestions p) (pd_masteredQuestions d),
      weakAreas = spreadOpt (weakAreas p) (pd_weakAreas d),
      prog_studyGoal = spreadOpt (prog_studyGoal p) (pd_studyGoal d),
      dailyProgress = spreadOpt (dailyProgress p) (pd_dailyProgress d),
      lastStudyDate = spreadOpt (lastStudyDate p) (pd_lastStudyDate d),
      prog_createdAt = spreadOpt (prog_createdAt p) (pd_createdAt d),
      lastUpdated = lastUpdated p\<rparr>"

definition updateUserProgress ::
  "system \<Rightarrow> nat \<Rightarrow> progress_data \<Rightarrow> timestamp \<Rightarrow> progress_result \<times> system" where
  "updateUserProgress s key progressData now =
     (let existing = (case getUserProgress s key of None \<Rightarrow> onlyUserId key | Some p \<Rightarrow> p);
          updated = (mergeProgress existing progressData)\<lparr>lastUpdated := Some now\<rparr>
      in case transaction s
                (s\<lparr>userProgress := (userProgress s)(prog_userId updated \<mapsto> updated)\<rparr>) of
           Inl m \<Rightarrow> (ProgressFailure m, s)
         | Inr s1 \<Rightarrow> (ProgressSuccess updated, s1))"

section \<open>The operations\<close>

definition sanitizeUser :: "user \<Rightarrow> user" where
  "sanitizeUser u = u\<lparr>passwordHash := None\<rparr>"

text \<open>
  \<open>logout\<close> has no \<open>try\<close>: when \<open>deleteSession\<close> is rejected, \<open>logout\<close> is
  rejected with the same error, before anything is removed from the two storages.
\<close>

definition logout :: "system \<Rightarrow> (message + logout_result) \<times> system" where
  "logout s =
     (case (case storedSessionId s of
              None \<Rightarrow> Inr s
            | Some sid \<Rightarrow> if sid = [] then Inr s else deleteSession s sid) of
        Inl m \<Rightarrow> (Inl m, s)
      | Inr s1 \<Rightarrow>
          (Inr LogoutSuccess,
           s1\<lparr>local_session_id := None, session_session_id := None,
              local_user_data := None, currentUser := None\<rparr>))"

text \<open>\<open>await this.logout(); return null\<close>, where \<open>r\<close> is what \<open>logout\<close> gives.\<close>

definition thenNull ::
  "(message + logout_result) \<times> system \<Rightarrow> (message + user option) \<times> system" where
  "thenNull r = (case fst r of Inl m \<Rightarrow> (Inl m, snd r) | Inr ok \<Rightarrow> (Inr None, snd r))"

text \<open>\<open>getCurrentUser\<close> has no \<open>try\<close> either.\<close>

definition getCurrentUser :: "system \<Rightarrow> timestamp \<Rightarrow> (message + user option) \<times> system" where
  "getCurrentUser s now =
     (case storedSessionId s of
        None \<Rightarrow> (Inr None, s)
      | Some sid \<Rightarrow>
          if sid = [] then (Inr None, s)
          else
            (case getSession s sid of
               Inl m \<Rightarrow> (Inl m, s)
             | Inr None \<Rightarrow> thenNull (logout s)
             | Inr (Some sess) \<Rightarrow>
                 if isSessionExpired now sess then thenNull (logout s)
                 else
                   (case getUserById s (userId sess) of
                      Inl m \<Rightarrow> (Inl m, s)
                    | Inr found \<Rightarrow> (Inr (map_option sanitizeUser found), s))))"

text \<open>
  \<open>x || null\<close> for an optional string and \<open>x || 20\<close> for an optional number: the
  empty string and zero are falsy as well.
\<close>

definition orNull :: "jsstring option \<Rightarrow> jsstring option" where
  "orNull x = (case x of None \<Rightarrow> None | Some t \<Rightarrow> if t = [] then None else Some t)"

definition orTwenty :: "nat option \<Rightarrow> nat" where
  "orTwenty x = (case x of None \<Rightarrow> 20 | Some n \<Rightarrow> if n = 0 then 20 else n)"

text \<open>
  The object literal \<open>user\<close> of \<open>registerUser\<close>; \<open>now\<close> is its \<open>new Date()\<close>,
  and \<open>lc\<close> the case table of the runtime (see \<open>toLowerCase\<close>).
\<close>

definition newUser :: "(jsstring \<Rightarrow> jsstring) \<Rightarrow> user_data \<Rightarrow> timestamp \<Rightarrow> user" where
  "newUser lc d now =
     \<lparr>uid = None,
      email = trim (toLowerCase lc (in_email d)),
      username = trim (in_username d),
      firstName = trim (in_firstName d),
      lastName = trim (in_lastName d),
      passwordHash = Some (hashPassword (in_password d)),
      createdAt = now,
      lastLoginAt = None,
      isActive = True,
      role = js ''student'',
      preferences = \<lparr>rememberMe = in_rememberMe d, emailNotifications = True,
                      studyReminders = True\<rparr>,
      profile = \<lparr>graduationDate = orNull (in_graduationDate d),
                  schoolName = in_schoolName d,
                  examDate = orNull (in_examDate d),
                  studyGoal = orTwenty (in_studyGoal d)\<rparr>,
      updatedAt = None\<rparr>"

text \<open>
  \<open>registerUser\<close>.  \<open>tUser\<close> and \<open>tProgress\<close> are the times read for the
  \<open>createdAt\<close> of the user and of the progress record.  An error raised on the way is
  caught and becomes the failure result; what was written before it stays.
\<close>

definition registerUser ::
  "(jsstring \<Rightarrow> jsstring) \<Rightarrow> system \<Rightarrow> user_data \<Rightarrow> timestamp \<Rightarrow> timestamp \<Rightarrow> session_env
     \<Rightarrow> auth_result \<times> system" where
  "registerUser lc s d tUser tProgress env =
     (case validateUserData d of
        Invalid m \<Rightarrow> (AuthFailure (Message m), s)
      | Valid \<Rightarrow>
          (case getUserByEmail s (in_email d) of
             Inl m \<Rightarrow> (AuthFailure m, s)
           | Inr (Some existingUser) \<Rightarrow>
               (AuthFailure (Message ''An account with this email already exists''), s)
           | Inr None \<Rightarrow>
               (let u = newUser lc d tUser in
                case storeUser s u of
                  Inl m \<Rightarrow> (AuthFailure m, s)
                | Inr (key, s1) \<Rightarrow>
                    (case initializeUserProgress s1 key tProgress of
                       Inl m \<Rightarrow> (AuthFailure m, s1)
                     | Inr (initialProgress, s2) \<Rightarrow>
                         (case createSession s2 key (in_rememberMe d) env of
                            Inl m \<Rightarrow> (AuthFailure m, s2)
                          | Inr (sess, s3) \<Rightarrow> (AuthSuccess (sanitizeUser u) sess, s3))))))"

definition authenticateUser ::
  "(jsstring \<Rightarrow> jsstring) \<Rightarrow> system \<Rightarrow> jsstring \<Rightarrow> jsstring \<Rightarrow> bool \<Rightarrow> timestamp
     \<Rightarrow> session_env \<Rightarrow> auth_result \<times> system" where
  "authenticateUser lc s e password remember tLogin env =
     (case getUserByEmail s (trim (toLowerCase lc e)) of
        Inl m \<Rightarrow> (AuthFailure m, s)
      | Inr None \<Rightarrow> (AuthFailure (Message ''Invalid email or password''), s)
      | Inr (Some u) \<Rightarrow>
          if \<not> (case passwordHash u of None \<Rightarrow> False | Some h \<Rightarrow> verifyPassword password h)
          then (AuthFailure (Message ''Invalid email or password''), s)
          else if \<not> isActive u
          then (AuthFailure (Message ''Account has been deactivated. Please contact support.''), s)
          else
            (case updateLastLogin s (uid u) tLogin of
               Inl m \<Rightarrow> (AuthFailure m, s)
             | Inr s1 \<Rightarrow>
                 (case uid u of
                    None \<Rightarrow> (AuthFailure (Native DataError), s1)
                  | Some key \<Rightarrow>
                      (case createSession s1 key remember env of
                         Inl m \<Rightarrow> (AuthFailure m, s1)
                       | Inr (sess, s2) \<Rightarrow>
                           (AuthSuccess (sanitizeUser u) sess, s2\<lparr>currentUser := Some u\<rparr>)))))"

definition applyUpdates :: "user \<Rightarrow> user_updates \<Rightarrow> user" where
  "applyUpdates u up =
     \<lparr>uid = spreadOpt (uid u) (up_id up),
      email = spread (email u) (up_email up),
      username = spread (username u) (up_username up),
      firstName = spread (firstName u) (up_firstName up),
      lastName = spread (lastName u) (up_lastName up),
      passwordHash = spreadOpt (passwordHash u) (up_passwordHash up),
      createdAt = spread (createdAt u) (up_createdAt up),
      lastLoginAt = spreadOpt (lastLoginAt u) (up_lastLoginAt up),
      isActive = spread (isActive u) (up_isActive up),
      role = spread (role u) (up_role up),
      preferences = spread (preferences u) (up_preferences up),
      profile = spread (profile u) (up_profile up),
      updatedAt = updatedAt u\<rparr>"

definition updateUserProfile ::
  "system \<Rightarrow> nat \<Rightarrow> user_updates \<Rightarrow> timestamp \<Rightarrow> profile_result \<times> system" where
  "updateUserProfile s key updates now =
     (case getUserById s key of
        Inl m \<Rightarrow> (ProfileFailure m, s)
      | Inr None \<Rightarrow> (ProfileFailure (Message ''User not found''), s)
      | Inr (Some u) \<Rightarrow>
          (let updatedUser = (applyUpdates u updates)\<lparr>updatedAt := Some now\<rparr> in
           case updateUser s updatedUser of
             Inl m \<Rightarrow> (ProfileFailure m, s)
           | Inr s1 \<Rightarrow> (ProfileSuccess (sanitizeUser updatedUser), s1)))"

definition loadCurrentSession :: "system \<Rightarrow> timestamp \<Rightarrow> (message + unit) \<times> system" where
  "loadCurrentSession s now =
     (case getCurrentUser s now of
        (Inl m, s1) \<Rightarrow> (Inl m, s1)
      | (Inr None, s1) \<Rightarrow> (Inr (), s1)
      | (Inr (Some u), s1) \<Rightarrow> (Inr (), s1\<lparr>currentUser := Some u, local_user_data := Some u\<rparr>))"

text \<open>
  The calls of the public interface, and the state each leaves.  \<open>getUserProgress\<close> and
  \<open>getUserStats\<close> only read the store \<open>userProgress\<close>.
\<close>

datatype operation =
    RegisterUser user_data timestamp timestamp session_env
  | AuthenticateUser jsstring jsstring bool timestamp session_env
  | GetCurrentUser timestamp
  | Logout
  | UpdateUserProfile nat user_updates timestamp
  | GetUserProgress nat
  | UpdateUserProgress nat progress_data timestamp
  | GetUserStats nat
  | LoadCurrentSession timestamp

fun exec :: "(jsstring \<Rightarrow> jsstring) \<Rightarrow> operation \<Rightarrow> system \<Rightarrow> system" where
  "exec lc (RegisterUser d tUser tProgress env) s = snd (registerUser lc s d tUser tProgress env)"
| "exec lc (AuthenticateUser e password remember tLogin env) s =
     snd (authenticateUser lc s e password remember tLogin env)"
| "exec lc (GetCurrentUser now) s = snd (getCurrentUser s now)"
| "exec lc Logout s = snd (logout s)"
| "exec lc (UpdateUserProfile key updates now) s = snd (updateUserProfile s key updates now)"
| "exec lc (GetUserProgress key) s = s"
| "exec lc (UpdateUserProgress key progressData now) s =
     snd (updateUserProgress s key progressData now)"
| "exec lc (GetUserStats key) s = s"
| "exec lc (LoadCurrentSession now) s = snd (loadCurrentSession s now)"

section \<open>What a regular expression matches\<close>

text \<open>
  The strings a regular expression matches, in the usual sense; the matcher by
  derivatives is shown to decide exactly this below.
\<close>

inductive accepts :: "rx \<Rightarrow> jsstring \<Rightarrow> bool" where
  eps: "accepts Eps []"
| cls: "P c \<Longrightarrow> accepts (Cls P) [c]"
| altL: "accepts r s \<Longrightarrow> accepts (Alt r t) s"
| altR: "accepts t s \<Longrightarrow> accepts (Alt r t) s"
| cat: "accepts r u \<Longrightarrow> accepts t v \<Longrightarrow> accepts (Cat r t) (u @ v)"
| star0: "accepts (Star r) []"
| starS: "accepts r u \<Longrightarrow> accepts (Star r) v \<Longrightarrow> accepts (Star r) (u @ v)"

section \<open>Decoding\<close>

text \<open>
  The inverse of \<open>encode\<close>, to state below that the encoding loses nothing of a
  well-formed string.
\<close>

text \<open>A string is well formed when it has no surrogate without its partner.\<close>

fun wellFormed :: "jsstring \<Rightarrow> bool" where
  "wellFormed [] = True"
| "wellFormed [c] = (\<not> isHighSurrogate c \<and> \<not> isLowSurrogate c)"
| "wellFormed (c # d # cs) =
     (if isHighSurrogate c then isLowSurrogate d \<and> wellFormed cs
      else \<not> isLowSurrogate c \<and> wellFormed (d # cs))"

text \<open>The code units of a code point (\<open>String.fromCodePoint\<close>).\<close>

definition unitsOf :: "nat \<Rightarrow> jsstring" where
  "unitsOf cp =
     (if cp < 0x10000 then [of_nat cp]
      else [of_nat (0xD800 + (cp - 0x10000) div 0x400), of_nat (0xDC00 + (cp - 0x10000) mod 0x400)])"

text \<open>
  Reading UTF-8: the first byte of a code point tells how many bytes follow, and the
  bytes give its value.
\<close>

definition continuation :: "nat \<Rightarrow> nat" where
  "continuation b = (if b < 0x80 then 0 else if b < 0xE0 then 1 else if b < 0xF0 then 2 else 3)"

definition scalarOfBytes :: "nat list \<Rightarrow> nat" where
  "scalarOfBytes bs =
     (case bs of
        [a] \<Rightarrow> a
      | [a, b] \<Rightarrow> 64 * (a - 0xC0) + (b - 0x80)
      | [a, b, c] \<Rightarrow> 4096 * (a - 0xE0) + 64 * (b - 0x80) + (c - 0x80)
      | [a, b, c, d] \<Rightarrow> 262144 * (a - 0xF0) + 4096 * (b - 0x80) + 64 * (c - 0x80) + (d - 0x80)
      | _ \<Rightarrow> 0xFFFD)"

fun decode8 :: "nat list \<Rightarrow> nat list" where
  "decode8 [] = []"
| "decode8 (b # bs) =
     scalarOfBytes (b # take (continuation b) bs) # decode8 (drop (continuation b) bs)"

definition decode :: "byte list \<Rightarrow> jsstring" where
  "decode bs = concat (map unitsOf (decode8 (map unat bs)))"

section \<open>Example inputs\<close>

text \<open>The session a call of \<open>createSession\<close> returns, if it returns one.\<close>

definition sessionOf :: "message + session \<times> system \<Rightarrow> session option" where
  "sessionOf r = (case r of Inl m \<Rightarrow> None | Inr (sess, s) \<Rightarrow> Some sess)"

text \<open>
  The examples contain ASCII strings only, so the case table of the runtime is never
  consulted in them; they are stated with the table that changes nothing.
\<close>

definition plainTable :: "jsstring \<Rightarrow> jsstring" where
  "plainTable s = s"

text \<open>
  The registration of the end-to-end scenario of the specification, on an empty
  database, with the clock at 1000 and the random suffix \<open>k3x9q2m1z\<close>.
\<close>

definition env0 :: session_env where
  "env0 = \<lparr>idTime = 1000, idRandom = js ''k3x9q2m1z'', expiresBase = 1000, createdTime = 1000\<rparr>"

definition ann :: user_data where
  "ann = \<lparr>in_email = js ''a@x.com'', in_username = js ''auser'', in_firstName = js ''Ann'',
           in_lastName = js ''Lee'', in_password = js ''Passw0rd'', in_rememberMe = False,
           in_graduationDate = None, in_schoolName = [], in_examDate = None,
           in_studyGoal = None\<rparr>"

definition sess0 :: session where
  "sess0 = \<lparr>sessionId = js ''sess_1000_k3x9q2m1z'', userId = 1, sess_createdAt = 1000,
             expiresAt = 43201000, sess_rememberMe = False, sess_isActive = True\<rparr>"

text \<open>The state this registration leaves.\<close>

definition progress0 :: progress where
  "progress0 =
     \<lparr>prog_userId = 1, questionsAnswered = Some 0, questionsCorrect = Some 0,
      currentStreak = Some 0, longestStreak = Some 0, studyTime = Some 0,
      categoriesProgress = Some [], flaggedQuestions = Some [], masteredQuestions = Some [],
      weakAreas = Some [], prog_studyGoal = Some 20, dailyProgress = Some [],
      lastStudyDate = None, prog_createdAt = Some 1001, lastUpdated = None\<rparr>"

definition user0 :: user where
  "user0 = (newUser plainTable ann 1000)\<lparr>uid := Some 1\<rparr>"

definition st0 :: system where
  "st0 = \<lparr>dbOpen = True, users = [user0], nextUserId = 2, userProgress = [1 \<mapsto> progress0],
           sessions = [sessionId sess0 \<mapsto> sess0], local_session_id = None,
           session_session_id = Some (sessionId sess0), local_user_data = None,
           currentUser = None\<rparr>"

text \<open>
  A second account, and a state in which the durable slot holds the token of a
  remember-me session of the first account.
\<close>

definition bob :: user_data where
  "bob = \<lparr>in_email = js ''b@y.org'', in_username = js ''bobby'', in_firstName = js ''Bob'',
           in_lastName = js ''Ray'', in_password = js ''Secret99x'', in_rememberMe = False,
           in_graduationDate = None, in_schoolName = [], in_examDate = None,
           in_studyGoal = None\<rparr>"

definition user1 :: user where
  "user1 = (newUser plainTable bob 1500)\<lparr>uid := Some 2\<rparr>"

definition sessA :: session where
  "sessA = \<lparr>sessionId = js ''sess_1000_k3x9q2m1z'', userId = 1, sess_createdAt = 1000,
             expiresAt = 2592001000, sess_rememberMe = True, sess_isActive = True\<rparr>"

definition stD :: system where
  "stD = \<lparr>dbOpen = True, users = [user0, user1], nextUserId = 3, userProgress = [1 \<mapsto> progress0],
           sessions = [js ''sess_1000_k3x9q2m1z'' \<mapsto> sessA],
           local_session_id = Some (js ''sess_1000_k3x9q2m1z''),
           session_session_id = None, local_user_data = None, currentUser = None\<rparr>"

text \<open>
  The same stores and storages under an object whose database is not open: what a
  page finds between the constructor and the end of \<open>initDatabase\<close> (or after its
  failure) when an earlier visit has left its remember-me token in \<open>localStorage\<close>.
\<close>

definition stNull :: system where
  "stNull = stD\<lparr>dbOpen := False\<rparr>"

definition env1 :: session_env where
  "env1 = \<lparr>idTime = 5000, idRandom = js ''p0o9i8u7y'', expiresBase = 5000, createdTime = 5000\<rparr>"

definition sessB :: session where
  "sessB = \<lparr>sessionId = js ''sess_5000_p0o9i8u7y'', userId = 2, sess_createdAt = 5000,
             expiresAt = 43205000, sess_rememberMe = False, sess_isActive = True\<rparr>"

text \<open>
  Variants of the example registration: the address in upper case (under another
  username), the address between spaces, a username of one letter and two spaces, and a
  password of two lines.
\<close>

definition annUpper :: user_data where
  "annUpper = ann\<lparr>in_email := js ''A@X.com'', in_username := js ''auser2''\<rparr>"

definition annPadded :: user_data where
  "annPadded = ann\<lparr>in_email := js '' a@x.com '', in_username := js ''auser3''\<rparr>"

definition annShort :: user_data where
  "annShort = ann\<lparr>in_username := js ''a  ''\<rparr>"

definition annTwoLines :: user_data where
  "annTwoLines = ann\<lparr>in_password := js ''abcdefgh'' @ [0x0A] @ js ''A1''\<rparr>"

text \<open>The record a lookup in an object store returns, if it returns one.\<close>

definition recordOf :: "message + 'a option \<Rightarrow> 'a option" where
  "recordOf r = (case r of Inl m \<Rightarrow> None | Inr found \<Rightarrow> found)"

text \<open>
  The state after a second login without remember-me in \<open>stD\<close>: its token is in
  the ephemeral slot, and the store holds the sessions of both tokens.
\<close>

definition stTwo :: system where
  "stTwo = stD\<lparr>sessions := (sessions stD)(sessionId sessB \<mapsto> sessB),
               session_session_id := Some (sessionId sessB)\<rparr>"

text \<open>The user object of a registration or authentication result.\<close>

definition userOf :: "auth_result \<Rightarrow> user option" where
  "userOf r = (case r of AuthSuccess u sess \<Rightarrow> Some u | AuthFailure m \<Rightarrow> None)"

section \<open>The matcher decides the regular expression\<close>

lemma accepts_Null [simp]: "\<not> accepts Null s"
  by (auto elim: accepts.cases)

lemma accepts_Eps [simp]: "accepts Eps s \<longleftrightarrow> s = []"
  by (auto elim: accepts.cases intro: accepts.intros)

lemma accepts_Cls [simp]: "accepts (Cls P) s \<longleftrightarrow> (\<exists>c. s = [c] \<and> P c)"
  by (auto elim: accepts.cases intro: accepts.intros)

lemma accepts_Alt [simp]: "accepts (Alt r t) s \<longleftrightarrow> accepts r s \<or> accepts t s"
  by (auto elim: accepts.cases intro: accepts.intros)

inductive_cases accepts_CatE: "accepts (Cat r t) s"

lemma accepts_Cat: "accepts (Cat r t) s \<longleftrightarrow> (\<exists>u v. s = u @ v \<and> accepts r u \<and> accepts t v)"
proof
  assume "accepts (Cat r t) s"
  then show "\<exists>u v. s = u @ v \<and> accepts r u \<and> accepts t v"
    by (rule accepts_CatE) blast
next
  assume "\<exists>u v. s = u @ v \<and> accepts r u \<and> accepts t v"
  then show "accepts (Cat r t) s" by (auto intro: accepts.cat)
qed

lemma accepts_nil_nullable: "accepts r s \<Longrightarrow> s = [] \<Longrightarrow> nullable r"
  by (induction rule: accepts.induct) auto

lemma nullable_accepts_nil: "nullable r \<Longrightarrow> accepts r []"
proof (induction r)
  case (Cat r t)
  then have "accepts r []" "accepts t []" by simp_all
  then have "accepts (Cat r t) ([] @ [])" by (rule accepts.cat)
  then show ?case by simp
qed (auto intro: accepts.intros)

lemma nullable_iff: "nullable r \<longleftrightarrow> accepts r []"
  using accepts_nil_nullable nullable_accepts_nil by blast

lemma accepts_deriv: "accepts r w \<Longrightarrow> w = c # s \<Longrightarrow> accepts (deriv c r) s"
proof (induction arbitrary: s rule: accepts.induct)
  case (cat r u t v)
  show ?case
  proof (cases u)
    case Nil
    with cat have "nullable r" "accepts (deriv c t) s"
      by (simp_all add: nullable_iff)
    then show ?thesis by simp
  next
    case (Cons a u')
    with cat.prems have "a = c" "s = u' @ v" by simp_all
    with Cons cat have "accepts (Cat (deriv c r) t) s"
      by (auto simp: accepts_Cat)
    then show ?thesis by simp
  qed
next
  case (starS r u v)
  show ?case
  proof (cases u)
    case Nil
    with starS show ?thesis by simp
  next
    case (Cons a u')
    with starS.prems have "a = c" "s = u' @ v" by simp_all
    with Cons starS show ?thesis by (auto simp: accepts_Cat)
  qed
qed auto

lemma deriv_accepts: "accepts (deriv c r) s \<Longrightarrow> accepts r (c # s)"
proof (induction r arbitrary: s)
  case (Cls P)
  then show ?case by (auto split: if_splits)
next
  case (Cat r t)
  from Cat.prems consider
    (left) u v where "s = u @ v" "accepts (deriv c r) u" "accepts t v"
    | (right) "nullable r" "accepts (deriv c t) s"
    by (auto simp: accepts_Cat split: if_splits)
  then show ?case
  proof cases
    case left
    then have "accepts (Cat r t) ((c # u) @ v)"
      by (intro accepts.cat Cat.IH)
    with left show ?thesis by simp
  next
    case right
    then have "accepts (Cat r t) ([] @ c # s)"
      by (intro accepts.cat Cat.IH) (simp_all add: nullable_iff)
    then show ?thesis by simp
  qed
next
  case (Star r)
  then obtain u v where "s = u @ v" "accepts (deriv c r) u" "accepts (Star r) v"
    by (auto simp: accepts_Cat)
  then have "accepts (Star r) ((c # u) @ v)"
    by (intro accepts.starS Star.IH)
  with \<open>s = u @ v\<close> show ?case by simp
qed auto

lemma deriv_iff: "accepts (deriv c r) s \<longleftrightarrow> accepts r (c # s)"
  using accepts_deriv deriv_accepts by blast

lemma rx_match_iff: "rx_match r s \<longleftrightarrow> accepts r s"
proof -
  have "nullable (foldl (\<lambda>r c. deriv c r) r s) \<longleftrightarrow> accepts r s" for r
    by (induction s arbitrary: r) (simp_all add: nullable_iff deriv_iff)
  then show ?thesis by (simp add: rx_match_def)
qed

lemma accepts_Star_Cls: "accepts (Star (Cls P)) s \<longleftrightarrow> list_all P s"
proof
  show "accepts (Star (Cls P)) s \<Longrightarrow> list_all P s"
  proof (induction "Star (Cls P)" s rule: accepts.induct)
    case star0
    then show ?case by simp
  next
    case (starS u v)
    then show ?case by auto
  qed
  show "list_all P s \<Longrightarrow> accepts (Star (Cls P)) s"
  proof (induction s)
    case Nil
    then show ?case by (simp add: accepts.star0)
  next
    case (Cons c s)
    then have "accepts (Star (Cls P)) ([c] @ s)"
      by (intro accepts.starS) auto
    then show ?case by simp
  qed
qed

lemma accepts_Plus_Cls: "accepts (Plus (Cls P)) s \<longleftrightarrow> s \<noteq> [] \<and> list_all P s"
proof (cases s)
  case Nil
  then show ?thesis by (simp add: Plus_def accepts_Cat)
next
  case (Cons c s')
  have "accepts (Cat (Cls P) (Star (Cls P))) (c # s') \<longleftrightarrow> P c \<and> list_all P s'"
  proof
    assume "accepts (Cat (Cls P) (Star (Cls P))) (c # s')"
    then obtain u v where "c # s' = u @ v" "accepts (Cls P) u" "accepts (Star (Cls P)) v"
      by (auto simp: accepts_Cat)
    then show "P c \<and> list_all P s'" by (auto simp: accepts_Star_Cls)
  next
    assume "P c \<and> list_all P s'"
    then have "accepts (Cat (Cls P) (Star (Cls P))) ([c] @ s')"
      by (intro accepts.cat) (simp_all add: accepts_Star_Cls)
    then show "accepts (Cat (Cls P) (Star (Cls P))) (c # s')" by simp
  qed
  with Cons show ?thesis by (simp add: Plus_def)
qed

section \<open>The two regular expressions of the source, spelled out\<close>

lemma accepts_letters2:
  "accepts (Cat (Cls P) (Plus (Cls P))) s \<longleftrightarrow> 2 \<le> length s \<and> list_all P s"
proof
  assume "accepts (Cat (Cls P) (Plus (Cls P))) s"
  then obtain c v where "s = [c] @ v" "P c" "v \<noteq> []" "list_all P v"
    by (auto simp: accepts_Cat accepts_Plus_Cls)
  then show "2 \<le> length s \<and> list_all P s"
    by (cases v) simp_all
next
  assume a: "2 \<le> length s \<and> list_all P s"
  then obtain c v where s: "s = c # v" by (cases s) auto
  with a have "accepts (Cls P) [c]" "accepts (Plus (Cls P)) v"
    by (auto simp: accepts_Plus_Cls)
  then have "accepts (Cat (Cls P) (Plus (Cls P))) ([c] @ v)" by (rule accepts.cat)
  with s show "accepts (Cat (Cls P) (Plus (Cls P))) s" by simp
qed

lemma isValidEmail_iff:
  "isValidEmail e \<longleftrightarrow>
     (\<exists>l d t. e = l @ of_char CHR ''@'' # d @ of_char CHR ''.'' # t
        \<and> l \<noteq> [] \<and> list_all localChar l \<and> d \<noteq> [] \<and> list_all domainChar d
        \<and> 2 \<le> length t \<and> list_all letter t)"
proof
  assume "isValidEmail e"
  then have "accepts emailRegex e" by (simp add: isValidEmail_def rx_match_iff)
  then obtain l r1 where 1: "e = l @ r1" "accepts (Plus (Cls localChar)) l"
    and "accepts (Cat (Cls (isChar CHR ''@'')) (Cat (Plus (Cls domainChar))
            (Cat (Cls (isChar CHR ''.'')) (Cat (Cls letter) (Plus (Cls letter)))))) r1"
    unfolding emailRegex_def by (auto simp: accepts_Cat [of "Plus (Cls localChar)"])
  then obtain r2 where 2: "r1 = of_char CHR ''@'' # r2"
    and "accepts (Cat (Plus (Cls domainChar))
            (Cat (Cls (isChar CHR ''.'')) (Cat (Cls letter) (Plus (Cls letter))))) r2"
    by (auto simp: accepts_Cat [of "Cls (isChar CHR ''@'')"] isChar_def)
  then obtain d r3 where 3: "r2 = d @ r3" "accepts (Plus (Cls domainChar)) d"
    and "accepts (Cat (Cls (isChar CHR ''.'')) (Cat (Cls letter) (Plus (Cls letter)))) r3"
    by (auto simp: accepts_Cat [of "Plus (Cls domainChar)"])
  then obtain t where 4: "r3 = of_char CHR ''.'' # t"
    and 5: "accepts (Cat (Cls letter) (Plus (Cls letter))) t"
    by (auto simp: accepts_Cat [of "Cls (isChar CHR ''.'')"] isChar_def)
  from 1 2 3 4 have "e = l @ of_char CHR ''@'' # d @ of_char CHR ''.'' # t" by simp
  with 1 3 5 show "\<exists>l d t. e = l @ of_char CHR ''@'' # d @ of_char CHR ''.'' # t
        \<and> l \<noteq> [] \<and> list_all localChar l \<and> d \<noteq> [] \<and> list_all domainChar d
        \<and> 2 \<le> length t \<and> list_all letter t"
    unfolding accepts_letters2 accepts_Plus_Cls by blast
next
  assume "\<exists>l d t. e = l @ of_char CHR ''@'' # d @ of_char CHR ''.'' # t
        \<and> l \<noteq> [] \<and> list_all localChar l \<and> d \<noteq> [] \<and> list_all domainChar d
        \<and> 2 \<le> length t \<and> list_all letter t"
  then obtain l d t where e: "e = l @ of_char CHR ''@'' # d @ of_char CHR ''.'' # t"
    and l: "accepts (Plus (Cls localChar)) l" and d: "accepts (Plus (Cls domainChar)) d"
    and t: "accepts (Cat (Cls letter) (Plus (Cls letter))) t"
    unfolding accepts_letters2 accepts_Plus_Cls by blast
  have at: "accepts (Cls (isChar CHR ''@'')) [of_char CHR ''@'']"
    and dt: "accepts (Cls (isChar CHR ''.'')) [of_char CHR ''.'']"
    by (simp_all add: isChar_def)
  have "accepts emailRegex (l @ [of_char CHR ''@''] @ d @ [of_char CHR ''.''] @ t)"
    unfolding emailRegex_def by (intro accepts.cat l at d dt t)
  with e show "isValidEmail e" by (simp add: isValidEmail_def rx_match_iff)
qed

lemma localChar_not_space: "localChar c \<Longrightarrow> \<not> isWhiteSpace c"
  by (auto simp: localChar_def lowerAZ_def upperAZ_def digit09_def isWhiteSpace_def js_def
        word_le_nat_alt)

lemma domainChar_local: "domainChar c \<Longrightarrow> localChar c"
  by (auto simp: localChar_def domainChar_def js_def)

lemma letter_local: "letter c \<Longrightarrow> localChar c"
  by (auto simp: localChar_def letter_def)

lemma not_space_at: "\<not> isWhiteSpace (of_char CHR ''@'')" "\<not> isWhiteSpace (of_char CHR ''.'')"
  by (simp_all add: isWhiteSpace_def)

lemma isValidEmail_no_space:
  assumes "isValidEmail e"
  shows "e \<noteq> []" "list_all (\<lambda>c. \<not> isWhiteSpace c) e"
proof -
  from assms obtain l d t where e: "e = l @ of_char CHR ''@'' # d @ of_char CHR ''.'' # t"
    and l: "list_all localChar l" and d: "list_all domainChar d" and t: "list_all letter t"
    by (auto simp: isValidEmail_iff)
  from e show "e \<noteq> []" by simp
  have "list_all (\<lambda>c. \<not> isWhiteSpace c) l"
    using l by (auto simp: list_all_iff dest: localChar_not_space)
  moreover have "list_all (\<lambda>c. \<not> isWhiteSpace c) d"
    using d by (auto simp: list_all_iff dest: localChar_not_space domainChar_local)
  moreover have "list_all (\<lambda>c. \<not> isWhiteSpace c) t"
    using t by (auto simp: list_all_iff dest: localChar_not_space letter_local)
  ultimately show "list_all (\<lambda>c. \<not> isWhiteSpace c) e"
    unfolding e using not_space_at by (simp del: of_char_Char)
qed

text \<open>An address that passes \<open>isValidEmail\<close> consists of ASCII code units.\<close>

lemma localChar_ascii: "localChar c \<Longrightarrow> isAscii c"
  by (auto simp: localChar_def lowerAZ_def upperAZ_def digit09_def isAscii_def js_def
        word_le_nat_alt word_less_nat_alt)

lemma isValidEmail_ascii:
  assumes "isValidEmail e"
  shows "list_all isAscii e"
proof -
  from assms obtain l d t where e: "e = l @ of_char CHR ''@'' # d @ of_char CHR ''.'' # t"
    and l: "list_all localChar l" and d: "list_all domainChar d" and t: "list_all letter t"
    by (auto simp: isValidEmail_iff)
  have "list_all isAscii l"
    using l by (auto simp: list_all_iff dest: localChar_ascii)
  moreover have "list_all isAscii d"
    using d by (auto simp: list_all_iff dest: localChar_ascii domainChar_local)
  moreover have "list_all isAscii t"
    using t by (auto simp: list_all_iff dest: localChar_ascii letter_local)
  ultimately show "list_all isAscii e"
    unfolding e by (simp add: isAscii_def)
qed

lemma dropWhile_none: "list_all (\<lambda>c. \<not> P c) s \<Longrightarrow> dropWhile P s = s"
  by (cases s) simp_all

lemma trim_no_space: "list_all (\<lambda>c. \<not> isWhiteSpace c) s \<Longrightarrow> trim s = s"
  by (simp add: trim_def dropWhile_none)

lemma trim_changes: "trim s \<noteq> s \<Longrightarrow> list_ex isWhiteSpace s"
  using trim_no_space [of s] by (auto simp: list_all_iff list_ex_iff)

lemma validate_trimmed_email:
  "validateUserData d = Valid \<Longrightarrow> trim (in_email d) = in_email d"
  by (auto simp: validateUserData_def split: if_splits
      intro: trim_no_space isValidEmail_no_space(2))

lemma register_padded_email:
  assumes "trim (in_email d) \<noteq> in_email d"
  shows "registerUser lc s d tUser tProgress env
           = (AuthFailure (Message ''Please enter a valid email address''), s)"
proof -
  from assms have "\<not> isValidEmail (in_email d)"
    using trim_no_space isValidEmail_no_space(2) by blast
  then show ?thesis by (simp add: registerUser_def validateUserData_def)
qed

lemma accepts_any: "accepts (Star (Cls anyChar)) s"
  by (simp add: accepts_Star_Cls anyChar_def list_all_iff)

lemma lookahead_iff:
  "lookahead (Cat (Star (Cls dot)) (Cls P)) s
     \<longleftrightarrow> (\<exists>u c v. s = u @ c # v \<and> list_all dot u \<and> P c)"
proof
  assume "lookahead (Cat (Star (Cls dot)) (Cls P)) s"
  then obtain x v where "s = x @ v" "accepts (Cat (Star (Cls dot)) (Cls P)) x"
    by (auto simp: lookahead_def rx_match_iff accepts_Cat [of "Cat (Star (Cls dot)) (Cls P)"])
  then obtain u c where "s = u @ c # v" "list_all dot u" "P c"
    by (auto simp: accepts_Cat [of "Star (Cls dot)"] accepts_Star_Cls)
  then show "\<exists>u c v. s = u @ c # v \<and> list_all dot u \<and> P c" by blast
next
  assume "\<exists>u c v. s = u @ c # v \<and> list_all dot u \<and> P c"
  then obtain u c v where s: "s = u @ c # v" and u: "accepts (Star (Cls dot)) u"
    and c: "accepts (Cls P) [c]"
    by (auto simp: accepts_Star_Cls)
  have "accepts (Cat (Cat (Star (Cls dot)) (Cls P)) (Star (Cls anyChar))) ((u @ [c]) @ v)"
    by (intro accepts.cat u c accepts_any)
  with s show "lookahead (Cat (Star (Cls dot)) (Cls P)) s"
    by (simp add: lookahead_def rx_match_iff)
qed

lemma self_in_tails: "t \<in> set (tails t)"
  by (cases t) simp_all

lemma set_tails: "t \<in> set (tails p) \<longleftrightarrow> (\<exists>u. p = u @ t)"
proof (induction p)
  case Nil
  then show ?case by auto
next
  case (Cons a p)
  show ?case
  proof
    assume "t \<in> set (tails (a # p))"
    with Cons show "\<exists>u. a # p = u @ t" by (auto intro: exI [of _ "[]"] exI [of _ "a # u" for u])
  next
    assume "\<exists>u. a # p = u @ t"
    then obtain u where u: "a # p = u @ t" by blast
    show "t \<in> set (tails (a # p))"
    proof (cases u)
      case Nil
      with u show ?thesis using self_in_tails [of t] by simp
    next
      case (Cons b u')
      with u have "p = u' @ t" by simp
      with Cons.IH show ?thesis by auto
    qed
  qed
qed

lemma passwordRegexTest_iff:
  "passwordRegexTest p \<longleftrightarrow>
     (\<exists>w t. p = w @ t
        \<and> (\<exists>u c v. t = u @ c # v \<and> list_all dot u \<and> lowerAZ c)
        \<and> (\<exists>u c v. t = u @ c # v \<and> list_all dot u \<and> upperAZ c)
        \<and> (\<exists>u c v. t = u @ c # v \<and> list_all dot u \<and> digit09 c))"
proof -
  have "passwordRegexTest p \<longleftrightarrow>
     (\<exists>t. (\<exists>w. p = w @ t)
        \<and> lookahead (Cat (Star (Cls dot)) (Cls lowerAZ)) t
        \<and> lookahead (Cat (Star (Cls dot)) (Cls upperAZ)) t
        \<and> lookahead (Cat (Star (Cls dot)) (Cls digit09)) t)"
    by (simp add: passwordRegexTest_def list_ex_iff Bex_def set_tails)
  then show ?thesis unfolding lookahead_iff by blast
qed

lemma passwordRegexTest_contains:
  assumes "passwordRegexTest p"
  shows "list_ex lowerAZ p \<and> list_ex upperAZ p \<and> list_ex digit09 p"
proof -
  have found: "list_ex P p" if "p = w @ t" "\<exists>u c v. t = u @ c # v \<and> list_all dot u \<and> P c"
    for P w t
    using that by (auto simp: list_ex_iff)
  from assms obtain w t where p: "p = w @ t"
    and l: "\<exists>u c v. t = u @ c # v \<and> list_all dot u \<and> lowerAZ c"
    and u: "\<exists>u c v. t = u @ c # v \<and> list_all dot u \<and> upperAZ c"
    and d: "\<exists>u c v. t = u @ c # v \<and> list_all dot u \<and> digit09 c"
    unfolding passwordRegexTest_iff by blast
  from found [OF p l] found [OF p u] found [OF p d] show ?thesis by simp
qed

lemma passwordRegexTest_one_line:
  assumes "list_all dot p"
  shows "passwordRegexTest p \<longleftrightarrow> list_ex lowerAZ p \<and> list_ex upperAZ p \<and> list_ex digit09 p"
proof
  assume "passwordRegexTest p"
  then show "list_ex lowerAZ p \<and> list_ex upperAZ p \<and> list_ex digit09 p"
    by (rule passwordRegexTest_contains)
next
  assume a: "list_ex lowerAZ p \<and> list_ex upperAZ p \<and> list_ex digit09 p"
  have split: "\<exists>u c v. p = u @ c # v \<and> list_all dot u \<and> P c" if "list_ex P p" for P
  proof -
    from that obtain c where "c \<in> set p" "P c" by (auto simp: list_ex_iff)
    then obtain u v where "p = u @ c # v" by (auto dest: split_list)
    with assms \<open>P c\<close> show ?thesis by auto
  qed
  from a have "p = [] @ p
        \<and> (\<exists>u c v. p = u @ c # v \<and> list_all dot u \<and> lowerAZ c)
        \<and> (\<exists>u c v. p = u @ c # v \<and> list_all dot u \<and> upperAZ c)
        \<and> (\<exists>u c v. p = u @ c # v \<and> list_all dot u \<and> digit09 c)"
    using split [of lowerAZ] split [of upperAZ] split [of digit09] by simp
  then show "passwordRegexTest p" unfolding passwordRegexTest_iff by blast
qed

section \<open>Validation, rule by rule\<close>

lemma validateUserData_order:
  "validateUserData d =
     (if \<not> isValidEmail (in_email d) then Invalid ''Please enter a valid email address''
      else if length (in_username d) < 3 then
        Invalid ''Username must be at least 3 characters long''
      else if length (in_firstName d) < 2 then
        Invalid ''First name must be at least 2 characters long''
      else if length (in_lastName d) < 2 then
        Invalid ''Last name must be at least 2 characters long''
      else if length (in_password d) < 8 then
        Invalid ''Password must be at least 8 characters long''
      else if \<not> passwordRegexTest (in_password d) then
        Invalid ''Password must contain at least one uppercase letter, one lowercase letter, and one number''
      else Valid)"
  using isValidEmail_no_space(1) [of "in_email d"]
  by (auto simp: validateUserData_def)

lemma validateUserData_single_line:
  assumes "list_all dot (in_password d)"
  shows "validateUserData d = Valid \<longleftrightarrow>
           isValidEmail (in_email d) \<and> 3 \<le> length (in_username d)
           \<and> 2 \<le> length (in_firstName d) \<and> 2 \<le> length (in_lastName d)
           \<and> 8 \<le> length (in_password d)
           \<and> list_ex lowerAZ (in_password d) \<and> list_ex upperAZ (in_password d)
           \<and> list_ex digit09 (in_password d)"
  using passwordRegexTest_one_line [OF assms]
  by (auto simp: validateUserData_order)

lemma registerUser_invalid:
  "validateUserData d = Invalid m \<Longrightarrow>
     registerUser lc s d tUser tProgress env = (AuthFailure (Message m), s)"
  by (simp add: registerUser_def)

section \<open>The encoding of a well-formed string can be decoded\<close>

lemma split3: "4096 * (cp div 4096) + 64 * (cp div 64 mod 64) + cp mod 64 = (cp::nat)"
proof -
  have "cp div 4096 = cp div 64 div 64" by (simp add: div_mult2_eq)
  then have "64 * (cp div 4096) + cp div 64 mod 64 = cp div 64" by simp
  then have "64 * (64 * (cp div 4096) + cp div 64 mod 64) + cp mod 64 = cp" by simp
  then show ?thesis by (simp add: algebra_simps)
qed

lemma split4:
  "262144 * (cp div 262144) + 4096 * (cp div 4096 mod 64) + 64 * (cp div 64 mod 64) + cp mod 64
     = (cp::nat)"
proof -
  have "cp div 262144 = cp div 4096 div 64" by (simp add: div_mult2_eq)
  then have "64 * (cp div 262144) + cp div 4096 mod 64 = cp div 4096" by simp
  then have "4096 * (64 * (cp div 262144) + cp div 4096 mod 64) = 4096 * (cp div 4096)" by simp
  then have "262144 * (cp div 262144) + 4096 * (cp div 4096 mod 64) = 4096 * (cp div 4096)"
    by (simp add: algebra_simps)
  with split3 [of cp] show ?thesis by simp
qed


lemma decode8_utf8: "cp < 0x110000 \<Longrightarrow> decode8 (utf8 cp @ r) = cp # decode8 r"
proof -
  assume "cp < 0x110000"
  consider "cp < 0x80" | "0x80 \<le> cp" "cp < 0x800" | "0x800 \<le> cp" "cp < 0x10000"
    | "0x10000 \<le> cp" by linarith
  then show ?thesis
  proof cases
    case 1
    then show ?thesis by (simp add: utf8_def continuation_def scalarOfBytes_def)
  next
    case 2
    then have "cp div 64 < 32" by simp
    with 2 show ?thesis by (simp add: utf8_def continuation_def scalarOfBytes_def)
  next
    case 3
    then have "cp div 4096 < 16" by simp
    with 3 split3 [of cp] show ?thesis
      by (simp add: utf8_def continuation_def scalarOfBytes_def)
  next
    case 4
    with split4 [of cp] show ?thesis
      by (simp add: utf8_def continuation_def scalarOfBytes_def)
  qed
qed


lemma decode8_concat:
  "list_all (\<lambda>cp. cp < 0x110000) cps \<Longrightarrow> decode8 (concat (map utf8 cps)) = cps"
  by (induction cps) (simp_all add: decode8_utf8 del: decode8.simps(2))

lemma utf8_bytes: "cp < 0x110000 \<Longrightarrow> list_all (\<lambda>b. b < 256) (utf8 cp)"
proof -
  assume a: "cp < 0x110000"
  then have "cp div 262144 < 5" by simp
  moreover have "cp < 0x800 \<Longrightarrow> cp div 64 < 32" by simp
  moreover have "cp < 0x10000 \<Longrightarrow> cp div 4096 < 16" by simp
  moreover have "k mod 64 < 128" for k :: nat
    using mod_less_divisor [of 64 k] by linarith
  ultimately show ?thesis by (auto simp: utf8_def)
qed

lemma unat_of_nat_byte: "list_all (\<lambda>b. b < 256) bs \<Longrightarrow> map unat (map of_nat bs :: byte list) = bs"
  by (induction bs) (simp_all add: unat_of_nat)

lemma surrogate_ranges:
  "isHighSurrogate c \<longleftrightarrow> 0xD800 \<le> unat c \<and> unat c \<le> 0xDBFF"
  "isLowSurrogate c \<longleftrightarrow> 0xDC00 \<le> unat c \<and> unat c \<le> 0xDFFF"
  by (simp_all add: isHighSurrogate_def isLowSurrogate_def word_le_nat_alt)

lemma unat_unit: "unat (c :: jschar) < 0x10000"
  using unsigned_less [of c, where 'a = nat] by simp

lemma scalarOfUnit_bound: "scalarOfUnit c < 0x110000"
  using unat_unit [of c] by (simp add: scalarOfUnit_def)

lemma codePoints_bound: "list_all (\<lambda>cp. cp < 0x110000) (codePoints s)"
proof (induction s rule: codePoints.induct)
  case 1
  then show ?case by simp
next
  case (2 c)
  then show ?case by (simp add: scalarOfUnit_bound)
next
  case (3 c d cs)
  have "0x10000 + (unat c - 0xD800) * 0x400 + (unat d - 0xDC00) < 0x110000"
    if "isHighSurrogate c" "isLowSurrogate d"
    using that unfolding surrogate_ranges by linarith
  with 3 show ?case by (simp add: scalarOfUnit_bound)
qed

lemma decode8_encode: "decode8 (map unat (encode s)) = codePoints s"
proof -
  have "b < 256" if "y \<in> set (codePoints s)" "b \<in> set (utf8 y)" for y b
  proof -
    from that(1) codePoints_bound [of s] have "y < 0x110000" by (simp add: list_all_iff)
    then have "list_all (\<lambda>b. b < 256) (utf8 y)" by (rule utf8_bytes)
    with that(2) show ?thesis by (simp add: list_all_iff)
  qed
  then have "list_all (\<lambda>b. b < 256) (concat (map utf8 (codePoints s)))"
    by (auto simp: list_all_iff)
  then have "map unat (encode s) = concat (map utf8 (codePoints s))"
    unfolding encode_def by (rule unat_of_nat_byte)
  then show ?thesis by (simp only: decode8_concat [OF codePoints_bound])
qed


lemma unitsOf_unit:
  "\<not> isHighSurrogate c \<Longrightarrow> \<not> isLowSurrogate c \<Longrightarrow> unitsOf (scalarOfUnit c) = [c]"
  using unat_unit [of c] by (simp add: unitsOf_def scalarOfUnit_def)

lemma unitsOf_pair:
  assumes "isHighSurrogate c" "isLowSurrogate d"
  shows "unitsOf (0x10000 + (unat c - 0xD800) * 0x400 + (unat d - 0xDC00)) = [c, d]"
proof -
  from assms have c: "0xD800 \<le> unat c" and d: "0xDC00 \<le> unat d" "unat d - 0xDC00 < 0x400"
    unfolding surrogate_ranges by linarith+
  have "((unat c - 0xD800) * 0x400 + (unat d - 0xDC00)) div 0x400 = unat c - 0xD800"
    using d(2) by simp
  moreover have "((unat c - 0xD800) * 0x400 + (unat d - 0xDC00)) mod 0x400 = unat d - 0xDC00"
    using d(2) by simp
  ultimately show ?thesis using c d(1) by (simp add: unitsOf_def)
qed

lemma units_codePoints: "wellFormed s \<Longrightarrow> concat (map unitsOf (codePoints s)) = s"
proof (induction s rule: codePoints.induct)
  case 1
  then show ?case by simp
next
  case (2 c)
  then show ?case by (simp add: unitsOf_unit)
next
  case (3 c d cs)
  show ?case
  proof (cases "isHighSurrogate c")
    case True
    with "3.prems" have d: "isLowSurrogate d" and cs: "wellFormed cs" by simp_all
    with True "3.IH"(1) show ?thesis by (simp add: unitsOf_pair)
  next
    case False
    with "3.prems" have c: "\<not> isLowSurrogate c" and rest: "wellFormed (d # cs)" by simp_all
    with False "3.IH"(2) show ?thesis by (simp add: unitsOf_unit)
  qed
qed

lemma decode_encode: "wellFormed s \<Longrightarrow> decode (encode s) = s"
  by (simp add: decode_def decode8_encode units_codePoints)

lemma wellFormed_append: "wellFormed s \<Longrightarrow> wellFormed t \<Longrightarrow> wellFormed (s @ t)"
proof (induction s rule: wellFormed.induct)
  case 1
  then show ?case by simp
next
  case (2 c)
  then show ?case by (cases t) simp_all
next
  case (3 c d cs)
  then show ?case by (simp split: if_splits)
qed

lemma wellFormed_salt: "wellFormed (js ''NCLEX_SALT_2024'')"
  by (simp add: js_def isHighSurrogate_def isLowSurrogate_def)

lemma encode_salted_inj:
  assumes "wellFormed p" "wellFormed q"
    and "encode (p @ js ''NCLEX_SALT_2024'') = encode (q @ js ''NCLEX_SALT_2024'')"
  shows "p = q"
proof -
  have "p @ js ''NCLEX_SALT_2024'' = decode (encode (p @ js ''NCLEX_SALT_2024''))"
    using assms(1) wellFormed_salt by (simp add: decode_encode wellFormed_append)
  also have "\<dots> = decode (encode (q @ js ''NCLEX_SALT_2024''))" using assms(3) by simp
  also have "\<dots> = q @ js ''NCLEX_SALT_2024''"
    using assms(2) wellFormed_salt by (simp add: decode_encode wellFormed_append)
  finally show ?thesis by simp
qed

lemma wellFormed_examples: "wellFormed (js ''Passw0rd'')" "wellFormed (js ''wrongpass'')"
  by (simp_all add: js_def isHighSurrogate_def isLowSurrogate_def)

section \<open>Digests\<close>

text \<open>A digest has 32 bytes.\<close>

lemma rounds_length: "length v = 8 \<Longrightarrow> length (rounds v ks ws) = 8"
  by (induction v ks ws rule: rounds.induct) (simp_all add: Let_def)

lemma compress_length: "length h = 8 \<Longrightarrow> length (compress h b) = 8"
  by (simp add: compress_def rounds_length)

lemma foldl_compress_length: "length h = 8 \<Longrightarrow> length (foldl compress h bs) = 8"
  by (induction bs arbitrary: h) (simp_all add: compress_length)

lemma length_bytes32s: "length (concat (map bytes32 hs)) = 4 * length hs"
  by (induction hs) (simp_all add: bytes32_def)

lemma sha256_length: "length (sha256 m) = 32"
  by (simp add: sha256_def Let_def length_bytes32s foldl_compress_length H256_def)

text \<open>
  The passwords of 257 letters \<open>a\<close> and \<open>b\<close> are twice as many as the sequences
  of 32 bytes: two different ones among these passwords have the same hash.
\<close>

lemma ascii_no_surrogate: "isAscii c \<Longrightarrow> \<not> isHighSurrogate c \<and> \<not> isLowSurrogate c"
  by (simp add: isAscii_def isHighSurrogate_def isLowSurrogate_def word_le_nat_alt
        word_less_nat_alt)

lemma ascii_wellFormed: "list_all isAscii s \<Longrightarrow> wellFormed s"
  by (induction s rule: wellFormed.induct) (auto dest: ascii_no_surrogate)

lemma hashPassword_collision:
  "\<exists>p q. wellFormed p \<and> wellFormed q \<and> length p = 257 \<and> length q = 257 \<and> q \<noteq> p
     \<and> hashPassword q = hashPassword p"
proof -
  let ?A = "{0x61, 0x62} :: jschar set"
  let ?S = "{xs. set xs \<subseteq> ?A \<and> length xs = 257}"
  let ?D = "{bs :: byte list. set bs \<subseteq> UNIV \<and> length bs = 32}"
  have "card ?A = 2" by simp
  then have cS: "card ?S = 2 ^ 257"
    using card_lists_length_eq [of ?A 257] by (simp only: finite.intros)
  have fD: "finite ?D" by (rule finite_lists_length_eq) simp
  have "card (UNIV :: byte set) = 256" by (simp add: card_word)
  then have cD: "card ?D = 256 ^ 32"
    using card_lists_length_eq [of "UNIV :: byte set" 32] by (simp only: finite)
  have sub: "hashPassword ` ?S \<subseteq> (\<lambda>bs. concat (map hex2 bs)) ` ?D"
    by (auto simp: hashPassword_def sha256_length)
  have less: "(256 :: nat) ^ 32 < 2 ^ 257" by simp
  have "card (hashPassword ` ?S) \<le> card ((\<lambda>bs. concat (map hex2 bs)) ` ?D)"
    using fD sub by (intro card_mono finite_imageI)
  also have "\<dots> \<le> card ?D" by (rule card_image_le [OF fD])
  finally have "card (hashPassword ` ?S) < card ?S"
    using less by (simp only: cS cD)
  then have "\<not> inj_on hashPassword ?S" using pigeonhole by blast
  then obtain p q where pq: "p \<in> ?S" "q \<in> ?S" "q \<noteq> p" "hashPassword q = hashPassword p"
    by (auto simp: inj_on_def)
  have "list_all isAscii xs" if "xs \<in> ?S" for xs
    using that by (auto simp: list_all_iff isAscii_def)
  with pq have "wellFormed p" "wellFormed q" by (blast intro: ascii_wellFormed)+
  with pq show ?thesis by auto
qed

text \<open>
  The code points of a password followed by the salt are those of the password followed
  by those of the salt: the salt does not begin with the second half of a pair.
\<close>

lemma codePoints_append:
  "t = [] \<or> \<not> isLowSurrogate (hd t) \<Longrightarrow> codePoints (s @ t) = codePoints s @ codePoints t"
proof (induction s rule: codePoints.induct)
  case 1
  then show ?case by simp
next
  case (2 c)
  then show ?case by (cases t) simp_all
next
  case (3 c d cs)
  then show ?case by simp
qed

lemma encode_same_codePoints:
  assumes "codePoints q = codePoints p"
  shows "encode (q @ js ''NCLEX_SALT_2024'') = encode (p @ js ''NCLEX_SALT_2024'')"
proof -
  have "\<not> isLowSurrogate (hd (js ''NCLEX_SALT_2024''))"
    by (simp add: js_def isLowSurrogate_def)
  then have "codePoints (x @ js ''NCLEX_SALT_2024'') = codePoints x @ codePoints (js ''NCLEX_SALT_2024'')"
    for x by (simp add: codePoints_append)
  with assms show ?thesis by (simp add: encode_def)
qed

text \<open>The hashes of the two passwords of the end-to-end scenario.\<close>

lemma hashPassword_Passw0rd:
  "hashPassword (js ''Passw0rd'') = js ''3cdc45da880cf6e9ff54ac0fb28861d44c1f83c81f8a4e1a76bc3f358108ba88''"
  by code_simp

lemma hashPassword_wrongpass:
  "hashPassword (js ''wrongpass'') = js ''5334ce336bf9d52d8cab4f88897fbcb3de4fbfebd76d91ab1a788f603e27d402''"
  by code_simp

section \<open>The database handle\<close>

lemma transaction_open [simp]: "dbOpen s \<Longrightarrow> transaction s r = Inr r"
  by (simp add: transaction_def)

lemma transaction_null [simp]: "\<not> dbOpen s \<Longrightarrow> transaction s r = Inl (Native TypeError)"
  by (simp add: transaction_def)

lemma transaction_Inr [simp]: "transaction s r = Inr r' \<longleftrightarrow> dbOpen s \<and> r' = r"
  by (auto simp: transaction_def)

lemma transaction_Inl [simp]: "transaction s r = Inl m \<longleftrightarrow> \<not> dbOpen s \<and> m = Native TypeError"
  by (auto simp: transaction_def)

lemma toLowerCase_ascii: "list_all isAscii s \<Longrightarrow> toLowerCase lc s = map lowerUnit s"
  by (simp add: toLowerCase_def)

section \<open>The case table of the runtime\<close>

text \<open>
  The table is consulted for strings with a code unit outside ASCII only:
  \<open>registerUser\<close> never consults it, since it lower-cases an address that has passed
  validation, and \<open>authenticateUser\<close> consults it for no ASCII address.
\<close>

lemma registerUser_any_table:
  "registerUser lc s d tUser tProgress env = registerUser lc' s d tUser tProgress env"
proof (cases "validateUserData d")
  case Valid
  then have "isValidEmail (in_email d)"
    by (auto simp: validateUserData_def split: if_splits)
  then have "list_all isAscii (in_email d)" by (rule isValidEmail_ascii)
  then have eq: "newUser lc d tUser = newUser lc' d tUser"
    by (simp add: newUser_def toLowerCase_def)
  show ?thesis unfolding registerUser_def eq by (rule refl)
next
  case (Invalid m)
  then show ?thesis by (simp add: registerUser_def)
qed

lemma authenticateUser_any_table:
  "list_all isAscii e \<Longrightarrow>
     authenticateUser lc s e password remember tLogin env
       = authenticateUser lc' s e password remember tLogin env"
  by (simp add: authenticateUser_def toLowerCase_def)

section \<open>What each store operation leaves unchanged\<close>

lemma createSession_frame:
  assumes "createSession s key remember env = Inr (sess, s')"
  shows "userProgress s' = userProgress s" "users s' = users s" "nextUserId s' = nextUserId s"
    "userId sess = key" "currentUser s' = currentUser s" "local_user_data s' = local_user_data s"
    "dbOpen s" "dbOpen s'"
  using assms by (auto simp: createSession_def Let_def split: if_splits)

lemma storeUser_frame:
  assumes "storeUser s u = Inr (key, s1)"
  shows "userProgress s1 = userProgress s" "users s1 = users s @ [u\<lparr>uid := Some key\<rparr>]"
    "\<not> hasKey (users s) key" "\<not> indexConflict (users s) key u" "sessions s1 = sessions s"
    "local_session_id s1 = local_session_id s" "session_session_id s1 = session_session_id s"
    "dbOpen s" "dbOpen s1"
  using assms by (auto simp: storeUser_def Let_def split: if_splits)

lemma initializeUserProgress_frame:
  assumes "initializeUserProgress s key now = Inr (p, s1)"
  shows "userProgress s1 = (userProgress s)(key \<mapsto> p)" "users s1 = users s"
    "nextUserId s1 = nextUserId s" "sessions s1 = sessions s" "dbOpen s" "dbOpen s1"
    "p = \<lparr>prog_userId = key,
           questionsAnswered = Some 0, questionsCorrect = Some 0, currentStreak = Some 0,
           longestStreak = Some 0, studyTime = Some 0,
           categoriesProgress = Some [], flaggedQuestions = Some [],
           masteredQuestions = Some [], weakAreas = Some [],
           prog_studyGoal = Some 20, dailyProgress = Some [], lastStudyDate = None,
           prog_createdAt = Some now, lastUpdated = None\<rparr>"
  using assms by (auto simp: initializeUserProgress_def Let_def)

lemma updateUser_frame:
  assumes "updateUser s u = Inr s1"
  shows "userProgress s1 = userProgress s" "sessions s1 = sessions s"
    "local_session_id s1 = local_session_id s" "session_session_id s1 = session_session_id s"
    "currentUser s1 = currentUser s" "local_user_data s1 = local_user_data s"
    "dbOpen s" "dbOpen s1"
  using assms by (auto simp: updateUser_def Let_def split: if_splits)

lemma updateLastLogin_frame:
  assumes "updateLastLogin s k now = Inr s1"
  shows "userProgress s1 = userProgress s" "sessions s1 = sessions s"
    "local_session_id s1 = local_session_id s" "session_session_id s1 = session_session_id s"
    "currentUser s1 = currentUser s" "local_user_data s1 = local_user_data s"
    "dbOpen s" "dbOpen s1"
  using assms
  by (auto simp: updateLastLogin_def getUserById_def dest: updateUser_frame
      split: option.splits sum.splits if_splits)

lemma logout_frame:
  "userProgress (snd (logout s)) = userProgress s" "users (snd (logout s)) = users s"
  "dbOpen (snd (logout s)) = dbOpen s"
  by (auto simp: logout_def deleteSession_def split: option.splits sum.splits)

lemma thenNull_snd [simp]: "snd (thenNull r) = snd r"
  by (simp add: thenNull_def split: sum.splits)

lemma getCurrentUser_frame:
  "userProgress (snd (getCurrentUser s now)) = userProgress s"
  "users (snd (getCurrentUser s now)) = users s"
  "dbOpen (snd (getCurrentUser s now)) = dbOpen s"
  by (simp_all add: getCurrentUser_def logout_frame split: option.splits sum.splits)

lemma find_append_new:
  "\<not> list_ex P xs \<Longrightarrow> P x \<Longrightarrow> find P (xs @ [x]) = Some x"
  by (induction xs) auto

section \<open>Successful registration, step by step\<close>

lemma newUser_fields:
  "uid (newUser lc d t) = None"
  "email (newUser lc d t) = trim (toLowerCase lc (in_email d))"
  "username (newUser lc d t) = trim (in_username d)"
  "firstName (newUser lc d t) = trim (in_firstName d)"
  "lastName (newUser lc d t) = trim (in_lastName d)"
  "passwordHash (newUser lc d t) = Some (hashPassword (in_password d))"
  "isActive (newUser lc d t) = True"
  "role (newUser lc d t) = js ''student''"
  by (simp_all add: newUser_def)

lemma registerUser_success:
  assumes "registerUser lc s d tUser tProgress env = (AuthSuccess u sess, s')"
  shows "validateUserData d = Valid"
    and "getUserByEmail s (in_email d) = Inr None"
    and "u = sanitizeUser (newUser lc d tUser)"
    and "\<exists>s1 p s2. storeUser s (newUser lc d tUser) = Inr (userId sess, s1)
           \<and> initializeUserProgress s1 (userId sess) tProgress = Inr (p, s2)
           \<and> createSession s2 (userId sess) (in_rememberMe d) env = Inr (sess, s')"
proof -
  from assms show "validateUserData d = Valid"
    by (auto simp: registerUser_def split: validation.splits)
  from assms show "getUserByEmail s (in_email d) = Inr None"
    by (auto simp: registerUser_def split: validation.splits option.splits sum.splits)
  from assms show "u = sanitizeUser (newUser lc d tUser)"
    by (auto simp: registerUser_def Let_def split: validation.splits option.splits sum.splits)
  from assms obtain key s1 p s2 where st: "storeUser s (newUser lc d tUser) = Inr (key, s1)"
    and ip: "initializeUserProgress s1 key tProgress = Inr (p, s2)"
    and cs: "createSession s2 key (in_rememberMe d) env = Inr (sess, s')"
    by (auto simp: registerUser_def Let_def split: validation.splits option.splits sum.splits)
  from cs have "userId sess = key" by (rule createSession_frame(4))
  with st ip cs show "\<exists>s1 p s2. storeUser s (newUser lc d tUser) = Inr (userId sess, s1)
           \<and> initializeUserProgress s1 (userId sess) tProgress = Inr (p, s2)
           \<and> createSession s2 (userId sess) (in_rememberMe d) env = Inr (sess, s')"
    by auto
qed

lemma registerUser_users:
  assumes ok: "registerUser lc s d tUser tProgress env = (AuthSuccess u sess, s')"
  shows "users s' = users s @ [(newUser lc d tUser)\<lparr>uid := Some (userId sess)\<rparr>]"
    and "\<not> hasKey (users s) (userId sess)"
    and "userId sess < nextUserId s'"
    and "dbOpen s'"
proof -
  from registerUser_success(4) [OF ok] obtain s1 p s2
    where st: "storeUser s (newUser lc d tUser) = Inr (userId sess, s1)"
      and ip: "initializeUserProgress s1 (userId sess) tProgress = Inr (p, s2)"
      and cs: "createSession s2 (userId sess) (in_rememberMe d) env = Inr (sess, s')"
    by blast
  show "users s' = users s @ [(newUser lc d tUser)\<lparr>uid := Some (userId sess)\<rparr>]"
    using createSession_frame(2) [OF cs] initializeUserProgress_frame(2) [OF ip]
      storeUser_frame(2) [OF st] by simp
  show "\<not> hasKey (users s) (userId sess)"
    by (rule storeUser_frame(3) [OF st])
  from st have "userId sess < nextUserId s1"
    by (auto simp: storeUser_def Let_def split: if_splits)
  then show "userId sess < nextUserId s'"
    using createSession_frame(3) [OF cs] initializeUserProgress_frame(3) [OF ip] by simp
  show "dbOpen s'" by (rule createSession_frame(8) [OF cs])
qed

lemma registerUser_stored_account:
  assumes ok: "registerUser lc s d tUser tProgress env = (AuthSuccess u sess, s')"
  shows "getUserById s' (userId sess)
           = Inr (Some ((newUser lc d tUser)\<lparr>uid := Some (userId sess)\<rparr>))"
    and "uid u = None"
    and "u = (sanitizeUser ((newUser lc d tUser)\<lparr>uid := Some (userId sess)\<rparr>))\<lparr>uid := None\<rparr>"
proof -
  have "\<not> list_ex (\<lambda>v. uid v = Some (userId sess)) (users s)"
    using registerUser_users(2) [OF ok] by (simp add: hasKey_def)
  then show "getUserById s' (userId sess)
           = Inr (Some ((newUser lc d tUser)\<lparr>uid := Some (userId sess)\<rparr>))"
    using registerUser_users(1,4) [OF ok] by (simp add: getUserById_def find_append_new)
  from registerUser_success(3) [OF ok] show "uid u = None"
    by (simp add: sanitizeUser_def newUser_fields)
  from registerUser_success(3) [OF ok]
  show "u = (sanitizeUser ((newUser lc d tUser)\<lparr>uid := Some (userId sess)\<rparr>))\<lparr>uid := None\<rparr>"
    by (simp add: sanitizeUser_def newUser_def)
qed

section \<open>No operation removes a progress record\<close>

lemma registerUser_keeps_progress:
  "userProgress s k \<noteq> None \<Longrightarrow> userProgress (snd (registerUser lc s d tU tP env)) k \<noteq> None"
  by (auto simp: registerUser_def Let_def
      dest!: createSession_frame(1) storeUser_frame(1) initializeUserProgress_frame(1)
      split: validation.splits option.splits sum.splits)

lemma authenticateUser_keeps_progress:
  "userProgress (snd (authenticateUser lc s e p r t env)) = userProgress s"
  by (auto simp: authenticateUser_def
      dest!: createSession_frame(1) updateLastLogin_frame(1)
      split: option.splits sum.splits)

lemma updateUserProfile_keeps_progress:
  "userProgress (snd (updateUserProfile s k up now)) = userProgress s"
  by (auto simp: updateUserProfile_def Let_def dest!: updateUser_frame(1)
      split: option.splits sum.splits)

lemma updateUserProgress_keeps_progress:
  "userProgress s k \<noteq> None \<Longrightarrow> userProgress (snd (updateUserProgress s j pd now)) k \<noteq> None"
  by (auto simp: updateUserProgress_def Let_def split: sum.splits)

lemma loadCurrentSession_keeps_progress:
  "userProgress (snd (loadCurrentSession s now)) = userProgress s"
  using getCurrentUser_frame(1) [of s now]
  by (auto simp: loadCurrentSession_def split: prod.splits option.splits sum.splits)

lemma exec_keeps_progress:
  "userProgress s k \<noteq> None \<Longrightarrow> userProgress (exec lc op s) k \<noteq> None"
  by (cases op)
    (simp_all add: registerUser_keeps_progress authenticateUser_keeps_progress
      getCurrentUser_frame logout_frame updateUserProfile_keeps_progress
      updateUserProgress_keeps_progress loadCurrentSession_keeps_progress)

lemma run_keeps_progress:
  "userProgress s k \<noteq> None \<Longrightarrow> userProgress (foldl (\<lambda>s op. exec lc op s) s ops) k \<noteq> None"
proof (induction ops arbitrary: s)
  case Nil
  then show ?case by simp
next
  case (Cons op ops)
  from Cons.prems have "userProgress (exec lc op s) k \<noteq> None"
    by (rule exec_keeps_progress)
  then show ?case using Cons.IH by simp
qed

section \<open>The example registration\<close>

lemmas char_classes = lowerAZ_def upperAZ_def digit09_def anyChar_def isLineTerminator_def
  dot_def isChar_def localChar_def domainChar_def letter_def

lemma isValidEmail_ann: "isValidEmail (js ''a@x.com'')"
  by (simp add: isValidEmail_def emailRegex_def rx_match_def Plus_def char_classes js_def)

lemma passwordRegexTest_Passw0rd: "passwordRegexTest (js ''Passw0rd'')"
  by (simp add: passwordRegexTest_def lookahead_def rx_match_def char_classes js_def)

lemma validate_ann: "validateUserData ann = Valid"
  using isValidEmail_ann passwordRegexTest_Passw0rd
  by (simp add: validateUserData_def ann_def) (simp add: js_def)

lemma generateSessionId_0: "generateSessionId 1000 (js ''k3x9q2m1z'') = js ''sess_1000_k3x9q2m1z''"
  by (simp add: generateSessionId_def numberToString_def digits.simps js_def)

lemma register_ann:
  "fst (registerUser plainTable emptySystem ann 1000 1001 env0)
     = AuthSuccess (sanitizeUser (newUser plainTable ann 1000)) sess0"
  using validate_ann generateSessionId_0
  by (simp add: registerUser_def getUserByEmail_def storeUser_def hasKey_def indexConflict_def
        keyFor_def newUser_def initializeUserProgress_def createSession_def Let_def env0_def
        sess0_def maxTime_def emptySystem_def ann_def)

lemma register_ann_state: "snd (registerUser plainTable emptySystem ann 1000 1001 env0) = st0"
proof -
  have rm: "in_rememberMe ann = False" by (simp add: ann_def)
  show ?thesis
    using validate_ann generateSessionId_0 rm
    by (simp add: registerUser_def getUserByEmail_def storeUser_def hasKey_def indexConflict_def
        keyFor_def initializeUserProgress_def createSession_def Let_def env0_def newUser_fields
        sess0_def maxTime_def emptySystem_def st0_def user0_def progress0_def)
qed

text \<open>The stored token, by the contents of the two slots.\<close>

lemma storedSessionId_slots:
  "storedSessionId s = Some tok \<and> tok \<noteq> [] \<longleftrightarrow>
     tok \<noteq> [] \<and> (local_session_id s = Some tok
        \<or> (local_session_id s = None \<or> local_session_id s = Some [])
          \<and> session_session_id s = Some tok)"
  by (auto simp: storedSessionId_def truthy_def split: option.splits)

lemma stored_st0: "storedSessionId st0 = Some (js ''sess_1000_k3x9q2m1z'')"
  by (simp add: storedSessionId_def st0_def truthy_def sess0_def)

lemma open_examples [simp]: "dbOpen emptySystem" "dbOpen st0" "dbOpen stD" "\<not> dbOpen stNull"
  by (simp_all add: emptySystem_def st0_def stD_def stNull_def)

section \<open>Authentication, step by step\<close>

lemma find_map_other:
  "\<not> P u \<Longrightarrow> (\<And>v. Q v \<Longrightarrow> \<not> P v) \<Longrightarrow> find P (map (\<lambda>v. if Q v then u else v) us) = find P us"
  by (induction us) auto

lemma find_append_other:
  "\<not> P u \<Longrightarrow> find P (us @ [u]) = find P us"
  by (induction us) auto

lemma find_putUser_other:
  assumes "j \<noteq> key" "uid u = Some key"
  shows "find (\<lambda>v. uid v = Some j) (putUser us key u) = find (\<lambda>v. uid v = Some j) us"
proof (cases "hasKey us key")
  case True
  have "find (\<lambda>v. uid v = Some j) (map (\<lambda>v. if uid v = Some key then u else v) us)
          = find (\<lambda>v. uid v = Some j) us"
    using assms by (intro find_map_other) auto
  with True show ?thesis by (simp add: putUser_def)
next
  case False
  with assms show ?thesis by (simp add: putUser_def find_append_other)
qed

lemma updateUser_getUserById:
  assumes "updateUser s v = Inr s1" "keyFor s v \<noteq> j"
  shows "getUserById s1 j = getUserById s j"
  using assms
  by (auto simp: updateUser_def Let_def getUserById_def find_putUser_other split: if_splits)

lemma getUserById_uid: "getUserById s k = Inr (Some v) \<Longrightarrow> uid v = Some k"
proof -
  assume "getUserById s k = Inr (Some v)"
  then have "find (\<lambda>u. uid u = Some k) (users s) = Some v"
    by (auto simp: getUserById_def)
  then show "uid v = Some k" by (auto simp: find_Some_iff)
qed

lemma updateLastLogin_getUserById:
  assumes "updateLastLogin s (Some k) now = Inr s1" "k \<noteq> j"
  shows "getUserById s1 j = getUserById s j"
proof (cases "getUserById s k")
  case (Inl m)
  with assms show ?thesis by (simp add: updateLastLogin_def)
next
  case (Inr found)
  show ?thesis
  proof (cases found)
    case None
    with Inr assms show ?thesis by (simp add: updateLastLogin_def)
  next
    case (Some v)
    with Inr have "keyFor s (v\<lparr>lastLoginAt := Some now\<rparr>) = k"
      by (simp add: keyFor_def getUserById_uid)
    with assms Inr Some show ?thesis
      by (auto simp: updateLastLogin_def intro: updateUser_getUserById)
  qed
qed

lemma authenticateUser_success:
  assumes "authenticateUser lc s e password remember tLogin env = (AuthSuccess u sess, s2)"
  shows "\<exists>acct key s1 s1'.
           getUserByEmail s (trim (toLowerCase lc e)) = Inr (Some acct) \<and> u = sanitizeUser acct
           \<and> uid acct = Some key
           \<and> updateLastLogin s (Some key) tLogin = Inr s1
           \<and> createSession s1 key remember env = Inr (sess, s1')
           \<and> s2 = s1'\<lparr>currentUser := Some acct\<rparr>"
  using assms
  by (auto simp: authenticateUser_def split: option.splits if_splits sum.splits)

lemma createSession_tokens:
  assumes "createSession s key False env = Inr (sess, s')"
  shows "local_session_id s' = local_session_id s"
    "session_session_id s' = Some (sessionId sess)"
    "sessions s' = (sessions s)(sessionId sess \<mapsto> sess)"
  using assms by (auto simp: createSession_def Let_def split: if_splits)

section \<open>The example with two accounts\<close>

lemmas string_ops = trim_def toLowerCase_def isAscii_def lowerUnit_def isWhiteSpace_def js_def

lemma user0_fields:
  "uid user0 = Some 1" "email user0 = js ''a@x.com''" "username user0 = js ''auser''"
  "passwordHash user0 = Some (hashPassword (js ''Passw0rd''))" "isActive user0 = True"
  by (simp_all add: user0_def newUser_def ann_def string_ops)

lemma user1_fields:
  "uid user1 = Some 2" "email user1 = js ''b@y.org''" "username user1 = js ''bobby''"
  "passwordHash user1 = Some (hashPassword (js ''Secret99x''))" "isActive user1 = True"
  by (simp_all add: user1_def newUser_def bob_def string_ops)

lemma generateSessionId_1: "generateSessionId 5000 (js ''p0o9i8u7y'') = js ''sess_5000_p0o9i8u7y''"
  by (simp add: generateSessionId_def numberToString_def digits.simps js_def)

lemma lookup_bob:
  "getUserByEmail stD (trim (toLowerCase plainTable (js ''B@Y.org''))) = Inr (Some user1)"
proof -
  have "trim (toLowerCase plainTable (js ''B@Y.org'')) = js ''b@y.org''" by (simp add: string_ops)
  moreover have "js ''a@x.com'' \<noteq> js ''b@y.org''" by (simp add: js_def)
  ultimately show ?thesis
    by (simp add: getUserByEmail_def stD_def user0_fields user1_fields)
qed

lemma authenticate_bob:
  "fst (authenticateUser plainTable stD (js ''B@Y.org'') (js ''Secret99x'') False 5000 env1)
     = AuthSuccess (sanitizeUser user1) sessB"
proof -
  have ne: "js ''a@x.com'' \<noteq> js ''b@y.org''" "js ''auser'' \<noteq> js ''bobby''"
    by (simp_all add: js_def)
  have ll: "updateLastLogin stD (Some 2) 5000
              = Inr (stD\<lparr>users := [user0, user1\<lparr>lastLoginAt := Some 5000\<rparr>]\<rparr>)"
    using ne
    by (simp add: updateLastLogin_def getUserById_def updateUser_def keyFor_def indexConflict_def
          putUser_def hasKey_def Let_def stD_def user0_fields user1_fields)
  show ?thesis
    using lookup_bob ll generateSessionId_1
    by (simp add: authenticateUser_def user1_fields verifyPassword_def createSession_def Let_def
          env1_def sessB_def maxTime_def)
qed

section \<open>The hexadecimal rendering of a digest is injective\<close>

lemma unat_hexDigit: "n < 16 \<Longrightarrow> unat (hexDigit n) = (if n < 10 then 48 + n else 87 + n)"
  by (simp add: hexDigit_def unat_of_nat del: of_nat_add)

lemma hexDigit_inj: "n < 16 \<Longrightarrow> m < 16 \<Longrightarrow> hexDigit n = hexDigit m \<Longrightarrow> n = m"
proof -
  assume n: "n < 16" and m: "m < 16" and eq: "hexDigit n = hexDigit m"
  from eq have "unat (hexDigit n) = unat (hexDigit m)" by simp
  with n m show "n = m" by (simp add: unat_hexDigit split: if_splits)
qed

lemma length_hex2: "length (hex2 b) = 2"
  by (simp add: hex2_def)

lemma hex2_inj: "hex2 a = hex2 b \<Longrightarrow> a = b"
proof -
  assume eq: "hex2 a = hex2 b"
  have la: "unat a < 256" using unsigned_less [of a, where 'a = nat] by simp
  have lb: "unat b < 256" using unsigned_less [of b, where 'a = nat] by simp
  from eq have d: "hexDigit (unat a div 16) = hexDigit (unat b div 16)"
    and m: "hexDigit (unat a mod 16) = hexDigit (unat b mod 16)"
    by (simp_all add: hex2_def)
  from la lb d have "unat a div 16 = unat b div 16"
    by (intro hexDigit_inj) (simp_all add: div_less_iff_less_mult)
  moreover from m have "unat a mod 16 = unat b mod 16"
    by (intro hexDigit_inj) simp_all
  ultimately have "unat a = unat b"
    by (metis div_mult_mod_eq)
  then show "a = b" by (simp add: word_unat_eq_iff)
qed

lemma hex_inj: "concat (map hex2 xs) = concat (map hex2 ys) \<Longrightarrow> xs = ys"
proof (induction xs arbitrary: ys)
  case Nil
  then show ?case by (cases ys) (simp_all add: hex2_def)
next
  case (Cons x xs)
  show ?case
  proof (cases ys)
    case Nil
    with Cons.prems show ?thesis by (simp add: hex2_def)
  next
    case (Cons y ys')
    with Cons.prems have "hex2 x @ concat (map hex2 xs) = hex2 y @ concat (map hex2 ys')"
      by simp
    then have h: "hex2 x = hex2 y" and t: "concat (map hex2 xs) = concat (map hex2 ys')"
      by (simp_all add: length_hex2)
    from h have "x = y" by (rule hex2_inj)
    moreover from t have "xs = ys'" by (rule Cons.IH)
    ultimately show ?thesis using Cons by simp
  qed
qed

section \<open>Variants of the example registration\<close>

lemma isValidEmail_upper: "isValidEmail (js ''A@X.com'')"
  by (simp add: isValidEmail_def emailRegex_def rx_match_def Plus_def char_classes js_def)

lemma isValidEmail_padded: "\<not> isValidEmail (js '' a@x.com '')"
  by (simp add: isValidEmail_def emailRegex_def rx_match_def Plus_def char_classes js_def)

lemma validate_annUpper: "validateUserData annUpper = Valid"
  using isValidEmail_upper passwordRegexTest_Passw0rd
  by (simp add: validateUserData_def annUpper_def ann_def) (simp add: js_def)

lemma validate_annPadded:
  "validateUserData annPadded = Invalid ''Please enter a valid email address''"
  using isValidEmail_padded
  by (simp add: validateUserData_def annPadded_def ann_def)

lemma validate_annShort: "validateUserData annShort = Valid"
  using isValidEmail_ann passwordRegexTest_Passw0rd
  by (simp add: validateUserData_def annShort_def ann_def) (simp add: js_def)

lemma passwordRegexTest_two_lines: "\<not> passwordRegexTest (js ''abcdefgh'' @ [0x0A] @ js ''A1'')"
  by (simp add: passwordRegexTest_def lookahead_def rx_match_def char_classes js_def)

lemma find_None_iff_ex: "find P xs = None \<longleftrightarrow> \<not> list_ex P xs"
  by (induction xs) auto

lemma storeUser_nextUserId:
  assumes "storeUser s u = Inr (key, s1)"
  shows "key < nextUserId s1" "nextUserId s \<le> nextUserId s1"
  using assms by (auto simp: storeUser_def Let_def split: if_splits)

section \<open>When a registration succeeds\<close>

lemma createSession_succeeds:
  assumes "\<bar>expiresBase env + (if remember then 2592000000 else 43200000)\<bar> \<le> maxTime"
    and "dbOpen s"
  shows "\<exists>sess s'. createSession s key remember env = Inr (sess, s')"
  using assms by (cases remember) (simp_all add: createSession_def Let_def)

lemma registerUser_succeeds:
  assumes valid: "validateUserData d = Valid"
    and free: "\<not> list_ex (\<lambda>v. email v = toLowerCase lc (in_email d)
                          \<or> username v = trim (in_username d)) (users s)"
    and lower: "toLowerCase lc (in_email d) = in_email d"
    and key: "\<not> hasKey (users s) (nextUserId s)"
    and time: "\<bar>expiresBase env + (if in_rememberMe d then 2592000000 else 43200000)\<bar> \<le> maxTime"
    and db: "dbOpen s"
  shows "\<exists>sess s'. registerUser lc s d tUser tProgress env
           = (AuthSuccess (sanitizeUser (newUser lc d tUser)) sess, s')"
proof -
  have norm: "trim (toLowerCase lc (in_email d)) = in_email d"
    using lower validate_trimmed_email [OF valid] by simp
  have none: "getUserByEmail s (in_email d) = Inr None"
    using free lower db by (auto simp: getUserByEmail_def find_None_iff_ex list_ex_iff)
  have "\<not> indexConflict (users s) (nextUserId s) (newUser lc d tUser)"
    using free norm lower by (auto simp: indexConflict_def newUser_fields list_ex_iff)
  with key db obtain s1 where st: "storeUser s (newUser lc d tUser) = Inr (nextUserId s, s1)"
    by (simp add: storeUser_def keyFor_def newUser_fields Let_def)
  from storeUser_frame(9) [OF st] obtain p s2
    where ip: "initializeUserProgress s1 (nextUserId s) tProgress = Inr (p, s2)"
    by (simp add: initializeUserProgress_def Let_def)
  from createSession_succeeds [OF time initializeUserProgress_frame(6) [OF ip]] obtain sess s'
    where "createSession s2 (nextUserId s) (in_rememberMe d) env = Inr (sess, s')"
    by blast
  with valid none st ip show ?thesis by (simp add: registerUser_def Let_def)
qed

section \<open>Registering an address twice (C1)\<close>

text \<open>
  C1, as the specification states it: the second of two registrations whose addresses
  are equal after trimming and lower-casing fails with the message of a duplicate
  account, whatever white space surrounds its address.  The code validates the address
  as it is given, before anything else: after the example registration, the same
  address between two spaces (all other input valid) is answered with the message for
  an invalid address.
\<close>

theorem registerUser_padded_email_counterexample:
  "fst (registerUser plainTable emptySystem ann 1000 1001 env0)
     = AuthSuccess (sanitizeUser (newUser plainTable ann 1000)) sess0
   \<and> trim (toLowerCase plainTable (in_email annPadded)) = trim (toLowerCase plainTable (in_email ann))
   \<and> validateUserData (annPadded\<lparr>in_email := in_email ann\<rparr>) = Valid
   \<and> fst (registerUser plainTable (snd (registerUser plainTable emptySystem ann 1000 1001 env0)) annPadded 5000 5001 env1)
       = AuthFailure (Message ''Please enter a valid email address'')"
proof -
  have norm: "trim (toLowerCase plainTable (in_email annPadded)) = trim (toLowerCase plainTable (in_email ann))"
    by (simp add: annPadded_def ann_def string_ops)
  have rest: "validateUserData (annPadded\<lparr>in_email := in_email ann\<rparr>) = Valid"
    using isValidEmail_ann passwordRegexTest_Passw0rd
    by (simp add: validateUserData_def annPadded_def ann_def) (simp add: js_def)
  have padded: "fst (registerUser plainTable st0 annPadded 5000 5001 env1)
                  = AuthFailure (Message ''Please enter a valid email address'')"
    using validate_annPadded by (simp add: registerUser_def)
  from register_ann norm rest padded show ?thesis
    by (simp add: register_ann_state)
qed

text \<open>
  The address in another letter case is looked up as it is given, so the stored
  lower-case address is not found; the unique index on \<open>email\<close> then refuses the new
  record, and the result carries the message of that error.
\<close>

lemma registerUser_case_variant:
  "trim (toLowerCase plainTable (in_email annUpper)) = trim (toLowerCase plainTable (in_email ann))
   \<and> validateUserData annUpper = Valid
   \<and> getUserByEmail st0 (in_email annUpper) = Inr None
   \<and> fst (registerUser plainTable st0 annUpper 5000 5001 env1) = AuthFailure (Native ConstraintError)
   \<and> getUserByEmail st0 (trim (toLowerCase plainTable (in_email annUpper))) = Inr (Some user0)"
proof -
  have norm: "trim (toLowerCase plainTable (in_email annUpper)) = trim (toLowerCase plainTable (in_email ann))"
    by (simp add: annUpper_def ann_def string_ops)
  have miss: "getUserByEmail st0 (in_email annUpper) = Inr None"
    by (simp add: getUserByEmail_def st0_def user0_fields annUpper_def) (simp add: js_def)
  have clash: "storeUser st0 (newUser plainTable annUpper 5000) = Inl (Native ConstraintError)"
    using norm
    by (simp add: storeUser_def keyFor_def hasKey_def indexConflict_def newUser_fields
          st0_def user0_fields Let_def) (simp add: ann_def string_ops)
  have upper: "fst (registerUser plainTable st0 annUpper 5000 5001 env1) = AuthFailure (Native ConstraintError)"
    using validate_annUpper miss clash by (simp add: registerUser_def)
  have hit: "getUserByEmail st0 (trim (toLowerCase plainTable (in_email annUpper)))
               = Inr (Some user0)"
    unfolding norm by (simp add: getUserByEmail_def st0_def user0_fields ann_def string_ops)
  from norm validate_annUpper miss upper hit show ?thesis by simp
qed

text \<open>
  C1, amended: let two registrations follow each other, the first successful, the input
  of the second valid (so its address has no white space around it), and their addresses
  equal after trimming and lower-casing.  Then the second returns a failure and changes
  nothing; and when its address is written in lower case, the failure carries the
  message \<open>An account with this email already exists\<close>.  An address with white
  space around it is answered with the message for an invalid address.
\<close>

theorem registerUser_duplicate:
  assumes first: "registerUser lc s d1 tUser1 tProgress1 envA = (AuthSuccess u1 sess1, s1)"
    and valid: "validateUserData d2 = Valid"
    and same: "trim (toLowerCase lc (in_email d2)) = trim (toLowerCase lc (in_email d1))"
  shows "trim (in_email d2) = in_email d2
         \<and> (\<exists>m. fst (registerUser lc s1 d2 tUser2 tProgress2 envB) = AuthFailure m)
         \<and> snd (registerUser lc s1 d2 tUser2 tProgress2 envB) = s1
         \<and> (toLowerCase lc (in_email d2) = in_email d2 \<longrightarrow>
              fst (registerUser lc s1 d2 tUser2 tProgress2 envB)
                = AuthFailure (Message ''An account with this email already exists''))
         \<and> (trim (in_email d3) \<noteq> in_email d3 \<longrightarrow>
              registerUser lc s1 d3 tUser2 tProgress2 envB
                = (AuthFailure (Message ''Please enter a valid email address''), s1))"
proof -
  let ?acct = "(newUser lc d1 tUser1)\<lparr>uid := Some (userId sess1)\<rparr>"
  have users: "users s1 = users s @ [?acct]"
    by (rule registerUser_users(1) [OF first])
  have key: "userId sess1 < nextUserId s1"
    by (rule registerUser_users(3) [OF first])
  have db: "dbOpen s1"
    by (rule registerUser_users(4) [OF first])
  have mail: "email ?acct = trim (toLowerCase lc (in_email d2))"
    using same by (simp add: newUser_fields)
  have conflict: "indexConflict (users s1) (keyFor s1 (newUser lc d2 tUser2)) (newUser lc d2 tUser2)"
    using key mail
    by (simp add: indexConflict_def users keyFor_def newUser_fields list_ex_iff)
  have fail: "storeUser s1 (newUser lc d2 tUser2) = Inl (Native ConstraintError)"
    using conflict db by (simp add: storeUser_def Let_def)
  have both: "(\<exists>m. fst (registerUser lc s1 d2 tUser2 tProgress2 envB) = AuthFailure m)
         \<and> snd (registerUser lc s1 d2 tUser2 tProgress2 envB) = s1"
    using valid fail by (simp add: registerUser_def split: option.splits sum.splits)
  have "fst (registerUser lc s1 d2 tUser2 tProgress2 envB)
          = AuthFailure (Message ''An account with this email already exists'')"
    if lower: "toLowerCase lc (in_email d2) = in_email d2"
  proof -
    from lower same validate_trimmed_email [OF valid]
    have exact: "in_email d2 = trim (toLowerCase lc (in_email d1))" by simp
    have "list_ex (\<lambda>v. email v = in_email d2) (users s1)"
      using exact by (simp add: users newUser_fields list_ex_iff)
    then obtain v where "getUserByEmail s1 (in_email d2) = Inr (Some v)"
      using db by (cases "find (\<lambda>u. email u = in_email d2) (users s1)")
         (simp_all add: getUserByEmail_def find_None_iff_ex)
    with valid show ?thesis by (simp add: registerUser_def)
  qed
  with both validate_trimmed_email [OF valid] register_padded_email [of d3 lc s1]
  show ?thesis by simp
qed

theorem registerUser_duplicate_witness:
  "fst (registerUser plainTable emptySystem ann 1000 1001 env0)
     = AuthSuccess (sanitizeUser (newUser plainTable ann 1000)) sess0
   \<and> validateUserData ann = Valid
   \<and> toLowerCase plainTable (in_email ann) = in_email ann
   \<and> fst (registerUser plainTable (snd (registerUser plainTable emptySystem ann 1000 1001 env0)) ann 5000 5001 env1)
       = AuthFailure (Message ''An account with this email already exists'')
   \<and> snd (registerUser plainTable (snd (registerUser plainTable emptySystem ann 1000 1001 env0)) ann 5000 5001 env1)
       = snd (registerUser plainTable emptySystem ann 1000 1001 env0)
   \<and> trim (in_email annPadded) \<noteq> in_email annPadded
   \<and> fst (registerUser plainTable (snd (registerUser plainTable emptySystem ann 1000 1001 env0)) annPadded 5000 5001 env1)
       = AuthFailure (Message ''Please enter a valid email address'')"
proof -
  have r: "registerUser plainTable emptySystem ann 1000 1001 env0
             = (AuthSuccess (sanitizeUser (newUser plainTable ann 1000)) sess0,
                snd (registerUser plainTable emptySystem ann 1000 1001 env0))"
    using register_ann by (simp add: prod_eq_iff)
  have lower: "toLowerCase plainTable (in_email ann) = in_email ann"
    by (simp add: ann_def string_ops)
  have padded: "trim (in_email annPadded) \<noteq> in_email annPadded"
    by (simp add: annPadded_def string_ops)
  from registerUser_duplicate [OF r validate_ann refl, of 5000 5001 env1 annPadded] lower padded
  have "fst (registerUser plainTable (snd (registerUser plainTable emptySystem ann 1000 1001 env0)) ann 5000 5001 env1)
       = AuthFailure (Message ''An account with this email already exists'')
     \<and> snd (registerUser plainTable (snd (registerUser plainTable emptySystem ann 1000 1001 env0)) ann 5000 5001 env1)
       = snd (registerUser plainTable emptySystem ann 1000 1001 env0)
     \<and> fst (registerUser plainTable (snd (registerUser plainTable emptySystem ann 1000 1001 env0)) annPadded 5000 5001 env1)
       = AuthFailure (Message ''Please enter a valid email address'')"
    by simp
  with register_ann validate_ann lower padded show ?thesis by blast
qed

section \<open>Session expiry (C2)\<close>

lemma createSession_env0:
  "createSession emptySystem 1 False env0
     = Inr (sess0, emptySystem\<lparr>sessions := [sessionId sess0 \<mapsto> sess0],
                               session_session_id := Some (sessionId sess0)\<rparr>)"
  using generateSessionId_0
  by (simp add: createSession_def Let_def env0_def sess0_def maxTime_def emptySystem_def)

text \<open>
  C2, as the specification states it: a session is expired from the instant
  \<open>expiresAt\<close> on, the instant itself included.  The code compares with \<open>>\<close>: the
  session created at 1000 without remember-me expires at 43201000 and is not judged
  expired at that instant.
\<close>

theorem isSessionExpired_boundary_counterexample:
  "map_option expiresAt (sessionOf (createSession emptySystem 1 False env0)) = Some 43201000
   \<and> map_option sess_createdAt (sessionOf (createSession emptySystem 1 False env0)) = Some 1000
   \<and> map_option (isSessionExpired 43201000) (sessionOf (createSession emptySystem 1 False env0))
       = Some False"
  unfolding createSession_env0 by (simp add: sessionOf_def isSessionExpired_def sess0_def)

text \<open>
  C2, amended: a session that \<open>createSession\<close> returns has \<open>expiresAt\<close> equal to the
  time read at its creation plus 12 hours (plus 30 days with remember-me), which is
  \<open>createdAt\<close> plus that span when the clock does not advance between the two readings
  \<open>createSession\<close> takes; and \<open>isSessionExpired\<close> judges it expired exactly when the
  current time is later than \<open>expiresAt\<close>, so at the instant \<open>expiresAt\<close> it is
  still valid.
\<close>

theorem createSession_expiry:
  assumes "createSession s key remember env = Inr (sess, s')"
  shows "expiresAt sess = expiresBase env + (if remember then 2592000000 else 43200000)
         \<and> sess_createdAt sess = createdTime env
         \<and> (expiresBase env = createdTime env \<longrightarrow>
              expiresAt sess = sess_createdAt sess + (if remember then 2592000000 else 43200000))
         \<and> (\<forall>now. isSessionExpired now sess \<longleftrightarrow> expiresAt sess < now)"
  using assms
  by (auto simp: createSession_def Let_def isSessionExpired_def split: if_splits)

theorem createSession_expiry_witness:
  "createSession emptySystem 1 False env0
     = Inr (sess0, emptySystem\<lparr>sessions := [sessionId sess0 \<mapsto> sess0],
                               session_session_id := Some (sessionId sess0)\<rparr>)
   \<and> expiresAt sess0 = 1000 + 43200000
   \<and> expiresAt sess0 = sess_createdAt sess0 + 43200000
   \<and> isSessionExpired 43201001 sess0
   \<and> \<not> isSessionExpired 43201000 sess0"
  using createSession_expiry [OF createSession_env0] createSession_env0
  by (simp add: env0_def sess0_def)
section \<open>Expired sessions (C3)\<close>

text \<open>
  C3, as the specification states it: in every state in which the stored session token
  names a session whose \<open>expiresAt\<close> is past, \<open>getCurrentUser\<close> returns nothing,
  deletes that session row and clears both token slots.  The code reaches the session
  store through \<open>this.db\<close>, which is \<open>null\<close> until \<open>initDatabase\<close> has
  succeeded, and \<open>getCurrentUser\<close> has no \<open>try\<close>: with the token of an expired
  remember-me session in \<open>localStorage\<close> and the database not open, the call is
  rejected with a \<open>TypeError\<close>; it does not return \<open>null\<close>, the session row stays
  and so does the token.
\<close>

theorem getCurrentUser_null_database_counterexample:
  "storedSessionId stNull = Some (js ''sess_1000_k3x9q2m1z'')
   \<and> sessions stNull (js ''sess_1000_k3x9q2m1z'') = Some sessA
   \<and> expiresAt sessA < 2592001001
   \<and> getCurrentUser stNull 2592001001 = (Inl (Native TypeError), stNull)
   \<and> fst (getCurrentUser stNull 2592001001) \<noteq> Inr None
   \<and> sessions (snd (getCurrentUser stNull 2592001001)) (js ''sess_1000_k3x9q2m1z'') = Some sessA
   \<and> local_session_id (snd (getCurrentUser stNull 2592001001)) = Some (js ''sess_1000_k3x9q2m1z'')"
proof -
  have ne: "js ''sess_1000_k3x9q2m1z'' \<noteq> []" by (simp add: js_def)
  have stored: "storedSessionId stNull = Some (js ''sess_1000_k3x9q2m1z'')"
    using ne by (simp add: storedSessionId_def truthy_def stNull_def stD_def)
  have row: "sessions stNull (js ''sess_1000_k3x9q2m1z'') = Some sessA"
    by (simp add: stNull_def stD_def)
  have slot: "local_session_id stNull = Some (js ''sess_1000_k3x9q2m1z'')"
    by (simp add: stNull_def stD_def)
  have past: "expiresAt sessA < 2592001001" by (simp add: sessA_def)
  have run: "getCurrentUser stNull 2592001001 = (Inl (Native TypeError), stNull)"
    using stored ne by (simp add: getCurrentUser_def getSession_def)
  from stored row slot past run show ?thesis by simp
qed

text \<open>
  C3, amended: in every state in which the database is open, when the stored session
  token (the durable slot first, the ephemeral one otherwise) names no session, or a
  session whose \<open>expiresAt\<close> is past, \<open>getCurrentUser\<close> returns nothing and leaves
  the state \<open>logout\<close> leaves: the session row of that token is deleted and both
  token slots are cleared, whatever the account it refers to.  And in every state an
  account that \<open>getCurrentUser\<close> returns is the sanitized owner of a stored session
  that is not expired.
\<close>

theorem getCurrentUser_expired:
  "(dbOpen s \<and> storedSessionId s = Some tok \<and> tok \<noteq> []
      \<and> (case sessions s tok of None \<Rightarrow> True | Some sess \<Rightarrow> expiresAt sess < now)
     \<longrightarrow> fst (getCurrentUser s now) = Inr None
         \<and> snd (getCurrentUser s now) = snd (logout s)
         \<and> sessions (snd (getCurrentUser s now)) tok = None
         \<and> local_session_id (snd (getCurrentUser s now)) = None
         \<and> session_session_id (snd (getCurrentUser s now)) = None)
   \<and> (fst (getCurrentUser s now) = Inr (Some u)
     \<longrightarrow> (\<exists>tok sess acct. storedSessionId s = Some tok \<and> sessions s tok = Some sess
            \<and> \<not> expiresAt sess < now \<and> getUserById s (userId sess) = Inr (Some acct)
            \<and> u = sanitizeUser acct))"
proof (intro conjI impI)
  assume a: "dbOpen s \<and> storedSessionId s = Some tok \<and> tok \<noteq> []
      \<and> (case sessions s tok of None \<Rightarrow> True | Some sess \<Rightarrow> expiresAt sess < now)"
  then have out: "logout s
      = (Inr LogoutSuccess,
         s\<lparr>sessions := (sessions s)(tok := None), local_session_id := None,
           session_session_id := None, local_user_data := None, currentUser := None\<rparr>)"
    by (simp add: logout_def deleteSession_def)
  from a have g: "getCurrentUser s now = thenNull (logout s)"
    by (auto simp: getCurrentUser_def getSession_def isSessionExpired_def split: option.splits)
  then show "fst (getCurrentUser s now) = Inr None" "snd (getCurrentUser s now) = snd (logout s)"
    by (simp_all add: out thenNull_def)
  show "sessions (snd (getCurrentUser s now)) tok = None"
    "local_session_id (snd (getCurrentUser s now)) = None"
    "session_session_id (snd (getCurrentUser s now)) = None"
    unfolding g by (simp_all add: out)
next
  assume "fst (getCurrentUser s now) = Inr (Some u)"
  then show "\<exists>tok sess acct. storedSessionId s = Some tok \<and> sessions s tok = Some sess
            \<and> \<not> expiresAt sess < now \<and> getUserById s (userId sess) = Inr (Some acct)
            \<and> u = sanitizeUser acct"
    by (auto simp: getCurrentUser_def getSession_def isSessionExpired_def thenNull_def
        split: option.splits if_splits sum.splits)
qed

theorem getCurrentUser_expired_witness:
  "dbOpen st0
   \<and> storedSessionId st0 = Some (js ''sess_1000_k3x9q2m1z'')
   \<and> sessions st0 (js ''sess_1000_k3x9q2m1z'') = Some sess0
   \<and> expiresAt sess0 < 43201001
   \<and> map_option isActive (recordOf (getUserById st0 (userId sess0))) = Some True
   \<and> fst (getCurrentUser st0 43201001) = Inr None
   \<and> sessions (snd (getCurrentUser st0 43201001)) (js ''sess_1000_k3x9q2m1z'') = None
   \<and> local_session_id (snd (getCurrentUser st0 43201001)) = None
   \<and> session_session_id (snd (getCurrentUser st0 43201001)) = None
   \<and> fst (getCurrentUser st0 43201000) = Inr (Some (sanitizeUser user0))"
proof -
  have db: "dbOpen st0" by simp
  have row: "sessions st0 (js ''sess_1000_k3x9q2m1z'') = Some sess0"
    by (simp add: st0_def sess0_def)
  have ne: "js ''sess_1000_k3x9q2m1z'' \<noteq> []" by (simp add: js_def)
  have acct: "getUserById st0 (userId sess0) = Inr (Some user0)"
    by (simp add: getUserById_def) (simp add: st0_def sess0_def user0_def)
  have live: "fst (getCurrentUser st0 43201000) = Inr (Some (sanitizeUser user0))"
    using stored_st0 row ne acct
    by (simp add: getCurrentUser_def getSession_def isSessionExpired_def)
       (simp add: sess0_def)
  have act: "map_option isActive (recordOf (getUserById st0 (userId sess0))) = Some True"
    unfolding acct by (simp add: recordOf_def user0_def newUser_def)
  have ex: "expiresAt sess0 < 43201001" by (simp add: sess0_def)
  have "dbOpen st0 \<and> storedSessionId st0 = Some (js ''sess_1000_k3x9q2m1z'')
      \<and> js ''sess_1000_k3x9q2m1z'' \<noteq> []
      \<and> (case sessions st0 (js ''sess_1000_k3x9q2m1z'') of None \<Rightarrow> True
          | Some sess \<Rightarrow> expiresAt sess < 43201001)"
    using db stored_st0 ne ex by (simp add: row)
  with getCurrentUser_expired [of st0 "js ''sess_1000_k3x9q2m1z''" 43201001 "sanitizeUser user0"]
  have "fst (getCurrentUser st0 43201001) = Inr None
         \<and> snd (getCurrentUser st0 43201001) = snd (logout st0)
         \<and> sessions (snd (getCurrentUser st0 43201001)) (js ''sess_1000_k3x9q2m1z'') = None
         \<and> local_session_id (snd (getCurrentUser st0 43201001)) = None
         \<and> session_session_id (snd (getCurrentUser st0 43201001)) = None"
    by blast
  with db stored_st0 row ex act live show ?thesis by blast
qed

section \<open>The password rule (C4)\<close>

text \<open>
  C4 states that validation tries its rules in a fixed order, answers with the message of
  the first rule that fails, and succeeds exactly when the address is well formed, the
  names and the password are long enough and the password contains a lower-case letter,
  an upper-case letter and a digit.  The order and the messages are as stated
  (\<open>validateUserData_order\<close>, \<open>registerUser_invalid\<close>), and so is the last rule for
  every password of one line (\<open>validateUserData_single_line\<close>).  The code differs at a
  password of two lines, \<open>abcdefgh\<close> and \<open>A1\<close>: it has eleven characters, among them
  a lower-case letter, an upper-case letter and a digit, and all other input is valid;
  \<open>validateUserData\<close> rejects it with the message of the very rule it fulfils,
  because \<open>.\<close> in the regular expression does not pass a line terminator.
\<close>

theorem validateUserData_two_line_password:
  "list_ex lowerAZ (in_password annTwoLines)
   \<and> list_ex upperAZ (in_password annTwoLines)
   \<and> list_ex digit09 (in_password annTwoLines)
   \<and> length (in_password annTwoLines) = 11
   \<and> validateUserData (annTwoLines\<lparr>in_password := js ''Passw0rd''\<rparr>) = Valid
   \<and> validateUserData annTwoLines
       = Invalid ''Password must contain at least one uppercase letter, one lowercase letter, and one number''
   \<and> fst (registerUser plainTable emptySystem annTwoLines 1000 1001 env0)
       = AuthFailure (Message ''Password must contain at least one uppercase letter, one lowercase letter, and one number'')"
proof -
  have pw: "in_password annTwoLines = js ''abcdefgh'' @ [0x0A] @ js ''A1''"
    by (simp add: annTwoLines_def)
  have chars: "list_ex lowerAZ (in_password annTwoLines)" "list_ex upperAZ (in_password annTwoLines)"
    "list_ex digit09 (in_password annTwoLines)" "length (in_password annTwoLines) = 11"
    unfolding pw by (simp_all add: js_def lowerAZ_def upperAZ_def digit09_def)
  have same: "annTwoLines\<lparr>in_password := js ''Passw0rd''\<rparr> = ann"
    by (simp add: annTwoLines_def ann_def)
  have bad: "validateUserData annTwoLines
       = Invalid ''Password must contain at least one uppercase letter, one lowercase letter, and one number''"
    using isValidEmail_ann passwordRegexTest_two_lines
    by (simp add: validateUserData_def annTwoLines_def ann_def) (simp add: js_def)
  then have "fst (registerUser plainTable emptySystem annTwoLines 1000 1001 env0)
       = AuthFailure (Message ''Password must contain at least one uppercase letter, one lowercase letter, and one number'')"
    by (simp add: registerUser_def)
  with chars bad validate_ann show ?thesis by (simp add: same)
qed

section \<open>Progress records (C5)\<close>

text \<open>
  C5: after a successful \<open>registerUser\<close> the store \<open>userProgress\<close> holds, under the
  key of the new account, the record with the five counters at zero, empty collections
  and no last study date; and no call of the interface, nor any sequence of calls,
  removes a progress record.
\<close>

theorem progress_created_and_kept:
  "(registerUser lc s d tUser tProgress env = (AuthSuccess u sess, s') \<longrightarrow>
      getUserById s' (userId sess)
        = Inr (Some ((newUser lc d tUser)\<lparr>uid := Some (userId sess)\<rparr>))
      \<and> userProgress s' (userId sess) =
          Some \<lparr>prog_userId = userId sess,
                questionsAnswered = Some 0, questionsCorrect = Some 0, currentStreak = Some 0,
                longestStreak = Some 0, studyTime = Some 0,
                categoriesProgress = Some [], flaggedQuestions = Some [],
                masteredQuestions = Some [], weakAreas = Some [],
                prog_studyGoal = Some 20, dailyProgress = Some [], lastStudyDate = None,
                prog_createdAt = Some tProgress, lastUpdated = None\<rparr>)
   \<and> (userProgress t k \<noteq> None \<longrightarrow>
        userProgress (foldl (\<lambda>s op. exec lc op s) t ops) k \<noteq> None)"
proof (intro conjI impI)
  assume ok: "registerUser lc s d tUser tProgress env = (AuthSuccess u sess, s')"
  from registerUser_success(4) [OF ok] obtain s1 p s2
    where st: "storeUser s (newUser lc d tUser) = Inr (userId sess, s1)"
      and ip: "initializeUserProgress s1 (userId sess) tProgress = Inr (p, s2)"
      and cs: "createSession s2 (userId sess) (in_rememberMe d) env = Inr (sess, s')"
    by blast
  show "getUserById s' (userId sess)
        = Inr (Some ((newUser lc d tUser)\<lparr>uid := Some (userId sess)\<rparr>))"
    by (rule registerUser_stored_account(1) [OF ok])
  show "userProgress s' (userId sess) =
          Some \<lparr>prog_userId = userId sess,
                questionsAnswered = Some 0, questionsCorrect = Some 0, currentStreak = Some 0,
                longestStreak = Some 0, studyTime = Some 0,
                categoriesProgress = Some [], flaggedQuestions = Some [],
                masteredQuestions = Some [], weakAreas = Some [],
                prog_studyGoal = Some 20, dailyProgress = Some [], lastStudyDate = None,
                prog_createdAt = Some tProgress, lastUpdated = None\<rparr>"
    using createSession_frame(1) [OF cs] initializeUserProgress_frame(1,7) [OF ip] by simp
next
  assume "userProgress t k \<noteq> None"
  then show "userProgress (foldl (\<lambda>s op. exec lc op s) t ops) k \<noteq> None"
    by (rule run_keeps_progress)
qed

theorem progress_created_and_kept_witness:
  "fst (registerUser plainTable emptySystem ann 1000 1001 env0)
     = AuthSuccess (sanitizeUser (newUser plainTable ann 1000)) sess0
   \<and> userProgress (snd (registerUser plainTable emptySystem ann 1000 1001 env0)) 1 =
       Some \<lparr>prog_userId = 1,
             questionsAnswered = Some 0, questionsCorrect = Some 0, currentStreak = Some 0,
             longestStreak = Some 0, studyTime = Some 0,
             categoriesProgress = Some [], flaggedQuestions = Some [],
             masteredQuestions = Some [], weakAreas = Some [],
             prog_studyGoal = Some 20, dailyProgress = Some [], lastStudyDate = None,
             prog_createdAt = Some 1001, lastUpdated = None\<rparr>
   \<and> userProgress
         (foldl (\<lambda>s op. exec plainTable op s)
            (snd (registerUser plainTable emptySystem ann 1000 1001 env0))
            [Logout, GetUserStats 1, GetCurrentUser 2000]) 1 \<noteq> None"
proof -
  have r: "registerUser plainTable emptySystem ann 1000 1001 env0
             = (AuthSuccess (sanitizeUser (newUser plainTable ann 1000)) sess0,
                snd (registerUser plainTable emptySystem ann 1000 1001 env0))"
    using register_ann by (simp add: prod_eq_iff)
  have one: "userId sess0 = 1" by (simp add: sess0_def)
  show ?thesis
    using progress_created_and_kept
      [of plainTable emptySystem ann 1000 1001 env0 "sanitizeUser (newUser plainTable ann 1000)" sess0
          "snd (registerUser plainTable emptySystem ann 1000 1001 env0)"
          "snd (registerUser plainTable emptySystem ann 1000 1001 env0)" 1
          "[Logout, GetUserStats 1, GetCurrentUser 2000]"]
      r register_ann one
    by simp
qed

section \<open>The user returned by a registration (C6)\<close>

text \<open>
  C6 states that the user returned by a successful registration is the stored account
  with only the password hash removed, its identifier included.  The code returns the
  object it built before storing it, which is the stored account without the password
  hash and without the identifier (\<open>registerUser_stored_account\<close>).  At the example
  registration: the user in the result has no \<open>id\<close>, the stored account has the key 1
  as its \<open>id\<close>, so the result is not the stored account without its password hash;
  \<open>authenticateUser\<close> does return that.
\<close>

theorem registerUser_result_lacks_id:
  "map_option uid (userOf (fst (registerUser plainTable emptySystem ann 1000 1001 env0))) = Some None
   \<and> map_option uid
         (recordOf (getUserById (snd (registerUser plainTable emptySystem ann 1000 1001 env0)) 1))
       = Some (Some 1)
   \<and> userOf (fst (registerUser plainTable emptySystem ann 1000 1001 env0))
       \<noteq> map_option sanitizeUser
           (recordOf (getUserById (snd (registerUser plainTable emptySystem ann 1000 1001 env0)) 1))
   \<and> userOf (fst (authenticateUser plainTable (snd (registerUser plainTable emptySystem ann 1000 1001 env0))
                    (js ''A@X.com'') (js ''Passw0rd'') False 5000 env1))
       = map_option sanitizeUser
           (recordOf (getUserById (snd (registerUser plainTable emptySystem ann 1000 1001 env0)) 1))"
proof -
  have acct: "recordOf (getUserById st0 1) = Some user0"
    by (simp add: getUserById_def recordOf_def) (simp add: st0_def user0_fields)
  have noid: "uid (sanitizeUser (newUser plainTable ann 1000)) = None"
    by (simp add: sanitizeUser_def newUser_fields)
  have id: "uid (sanitizeUser user0) = Some 1"
    by (simp add: sanitizeUser_def user0_fields)
  from noid id have diff: "sanitizeUser (newUser plainTable ann 1000) \<noteq> sanitizeUser user0"
    by auto
  have look: "getUserByEmail st0 (trim (toLowerCase plainTable (js ''A@X.com''))) = Inr (Some user0)"
  proof -
    have "trim (toLowerCase plainTable (js ''A@X.com'')) = js ''a@x.com''" by (simp add: string_ops)
    then show ?thesis by (simp add: getUserByEmail_def st0_def user0_fields)
  qed
  have ll: "updateLastLogin st0 (Some 1) 5000
              = Inr (st0\<lparr>users := [user0\<lparr>lastLoginAt := Some 5000\<rparr>]\<rparr>)"
    by (simp add: updateLastLogin_def getUserById_def updateUser_def keyFor_def indexConflict_def
          putUser_def hasKey_def Let_def st0_def user0_fields)
  have auth: "fst (authenticateUser plainTable st0 (js ''A@X.com'') (js ''Passw0rd'') False 5000 env1)
                = AuthSuccess (sanitizeUser user0) (sessB\<lparr>userId := 1\<rparr>)"
    using look ll generateSessionId_1
    by (simp add: authenticateUser_def user0_fields verifyPassword_def createSession_def Let_def
          env1_def sessB_def maxTime_def)
  from acct noid id diff auth show ?thesis
    by (simp add: register_ann register_ann_state userOf_def user0_fields)
qed
section \<open>Password verification (C7)\<close>

text \<open>
  C7, as the specification states it: no password but the original is accepted.  The
  code compares SHA-256 digests of the UTF-8 encoding of the salted passwords.  In that
  encoding every surrogate without its partner becomes U+FFFD: the passwords
  \<open>Passw0rd\<close> followed by the code unit D800 and \<open>Passw0rd\<close> followed by D801
  differ in one character and have the same hash.  And leaving such passwords aside does
  not save the statement: a digest has 32 bytes, so among the passwords of 257 code
  units without surrogates there are two different ones of which each is accepted for
  the other.
\<close>

theorem verifyPassword_not_only_original_counterexample:
  "verifyPassword (js ''Passw0rd'' @ [0xD801]) (hashPassword (js ''Passw0rd'' @ [0xD800]))
   \<and> js ''Passw0rd'' @ [0xD801] \<noteq> js ''Passw0rd'' @ [0xD800]
   \<and> \<not> (\<forall>p q. wellFormed p \<and> wellFormed q \<and> length p = 257 \<and> length q = 257 \<and> q \<noteq> p
            \<longrightarrow> \<not> verifyPassword q (hashPassword p))"
proof -
  have "encode ((js ''Passw0rd'' @ [0xD801]) @ js ''NCLEX_SALT_2024'')
          = encode ((js ''Passw0rd'' @ [0xD800]) @ js ''NCLEX_SALT_2024'')"
    by (simp add: encode_def js_def scalarOfUnit_def isHighSurrogate_def isLowSurrogate_def)
  then have "verifyPassword (js ''Passw0rd'' @ [0xD801]) (hashPassword (js ''Passw0rd'' @ [0xD800]))"
    by (simp add: verifyPassword_def hashPassword_def)
  moreover have "js ''Passw0rd'' @ [0xD801] \<noteq> js ''Passw0rd'' @ [0xD800]"
    by simp
  moreover
  from hashPassword_collision obtain p q
    where "wellFormed p" "wellFormed q" "length p = 257" "length q = 257" "q \<noteq> p"
      "verifyPassword q (hashPassword p)"
    by (auto simp: verifyPassword_def)
  then have "\<not> (\<forall>p q. wellFormed p \<and> wellFormed q \<and> length p = 257 \<and> length q = 257 \<and> q \<noteq> p
                 \<longrightarrow> \<not> verifyPassword q (hashPassword p))"
    by blast
  ultimately show ?thesis by blast
qed

text \<open>
  C7, amended: \<open>verifyPassword\<close> accepts the original password.  It accepts a
  password \<open>q\<close> against the hash of \<open>p\<close> exactly when \<open>q\<close> and \<open>p\<close>, each
  followed by the fixed salt and encoded in UTF-8 (an unpaired surrogate as U+FFFD), have
  the same SHA-256 digest.  That is so whenever \<open>q\<close> and \<open>p\<close> have the same code
  points once every unpaired surrogate is replaced by U+FFFD.  For two different
  passwords without unpaired surrogates the encodings are different byte sequences, so
  that one is accepted for the other only where SHA-256 gives two different inputs the
  same digest.  The password \<open>wrongpass\<close> is not accepted for \<open>Passw0rd\<close>.
\<close>

theorem verifyPassword_same_digest:
  "verifyPassword p (hashPassword p)
   \<and> (verifyPassword q (hashPassword p)
        \<longleftrightarrow> sha256 (encode (q @ js ''NCLEX_SALT_2024''))
            = sha256 (encode (p @ js ''NCLEX_SALT_2024'')))
   \<and> (codePoints q = codePoints p \<longrightarrow> verifyPassword q (hashPassword p))
   \<and> (wellFormed p \<and> wellFormed q \<and> q \<noteq> p \<longrightarrow>
        encode (q @ js ''NCLEX_SALT_2024'') \<noteq> encode (p @ js ''NCLEX_SALT_2024''))
   \<and> \<not> verifyPassword (js ''wrongpass'') (hashPassword (js ''Passw0rd''))"
proof -
  have digest: "verifyPassword q (hashPassword p)
        \<longleftrightarrow> sha256 (encode (q @ js ''NCLEX_SALT_2024''))
            = sha256 (encode (p @ js ''NCLEX_SALT_2024''))"
    by (auto simp: verifyPassword_def hashPassword_def dest: hex_inj)
  have same: "verifyPassword p (hashPassword p)"
    by (simp add: verifyPassword_def)
  have points: "verifyPassword q (hashPassword p)" if "codePoints q = codePoints p"
    using encode_same_codePoints [OF that] by (simp add: digest)
  have differ: "encode (q @ js ''NCLEX_SALT_2024'') \<noteq> encode (p @ js ''NCLEX_SALT_2024'')"
    if "wellFormed p" "wellFormed q" "q \<noteq> p"
    using that encode_salted_inj [of q p] by blast
  have "js ''5334ce336bf9d52d8cab4f88897fbcb3de4fbfebd76d91ab1a788f603e27d402''
          \<noteq> js ''3cdc45da880cf6e9ff54ac0fb28861d44c1f83c81f8a4e1a76bc3f358108ba88''"
    by (simp add: js_def)
  then have wrong: "\<not> verifyPassword (js ''wrongpass'') (hashPassword (js ''Passw0rd''))"
    by (simp add: verifyPassword_def hashPassword_Passw0rd hashPassword_wrongpass)
  from digest same points differ wrong show ?thesis by blast
qed

theorem verifyPassword_same_digest_witness:
  "wellFormed (js ''Passw0rd'') \<and> wellFormed (js ''wrongpass'')
   \<and> js ''wrongpass'' \<noteq> js ''Passw0rd''
   \<and> encode (js ''wrongpass'' @ js ''NCLEX_SALT_2024'')
       \<noteq> encode (js ''Passw0rd'' @ js ''NCLEX_SALT_2024'')
   \<and> verifyPassword (js ''Passw0rd'') (hashPassword (js ''Passw0rd''))
   \<and> \<not> verifyPassword (js ''wrongpass'') (hashPassword (js ''Passw0rd''))
   \<and> sha256 (encode (js ''wrongpass'' @ js ''NCLEX_SALT_2024''))
       \<noteq> sha256 (encode (js ''Passw0rd'' @ js ''NCLEX_SALT_2024''))
   \<and> codePoints (js ''Passw0rd'' @ [0xD801]) = codePoints (js ''Passw0rd'' @ [0xD800])
   \<and> verifyPassword (js ''Passw0rd'' @ [0xD801]) (hashPassword (js ''Passw0rd'' @ [0xD800]))"
proof -
  have ne: "js ''wrongpass'' \<noteq> js ''Passw0rd''" by (simp add: js_def)
  have cp: "codePoints (js ''Passw0rd'' @ [0xD801]) = codePoints (js ''Passw0rd'' @ [0xD800])"
    by (simp add: js_def scalarOfUnit_def isHighSurrogate_def isLowSurrogate_def)
  from verifyPassword_same_digest [where p = "js ''Passw0rd''" and q = "js ''wrongpass''"]
    wellFormed_examples ne
  have a: "encode (js ''wrongpass'' @ js ''NCLEX_SALT_2024'')
             \<noteq> encode (js ''Passw0rd'' @ js ''NCLEX_SALT_2024'')
     \<and> verifyPassword (js ''Passw0rd'') (hashPassword (js ''Passw0rd''))
     \<and> \<not> verifyPassword (js ''wrongpass'') (hashPassword (js ''Passw0rd''))
     \<and> sha256 (encode (js ''wrongpass'' @ js ''NCLEX_SALT_2024''))
         \<noteq> sha256 (encode (js ''Passw0rd'' @ js ''NCLEX_SALT_2024''))"
    by blast
  from verifyPassword_same_digest
    [where p = "js ''Passw0rd'' @ [0xD800]" and q = "js ''Passw0rd'' @ [0xD801]"] cp
  have b: "verifyPassword (js ''Passw0rd'' @ [0xD801]) (hashPassword (js ''Passw0rd'' @ [0xD800]))"
    by blast
  from wellFormed_examples ne cp a b show ?thesis by blast
qed
section \<open>Logout (C8)\<close>

text \<open>
  Without a database, \<open>logout\<close> succeeds only when no token is stored: with a token
  it asks \<open>deleteSession\<close> for a transaction and is rejected, and the state is as
  before.
\<close>

lemma logout_rejected:
  assumes "\<not> dbOpen s" "storedSessionId s = Some tok" "tok \<noteq> []"
  shows "logout s = (Inl (Native TypeError), s)"
  using assms by (simp add: logout_def deleteSession_def)

text \<open>
  C8, as the specification states it: \<open>logout\<close> never fails, it returns
  \<open>{success: true}\<close> and clears the token slots in every state.  The code has no
  \<open>try\<close> in \<open>logout\<close>, and \<open>deleteSession\<close> needs \<open>this.db\<close>, which is
  \<open>null\<close> until \<open>initDatabase\<close> has succeeded: with the token of an earlier
  session in \<open>localStorage\<close> and the database not open, \<open>logout\<close> is rejected with
  a \<open>TypeError\<close> and the token is still in its slot.
\<close>

theorem logout_null_database_counterexample:
  "local_session_id stNull = Some (js ''sess_1000_k3x9q2m1z'')
   \<and> logout stNull = (Inl (Native TypeError), stNull)
   \<and> fst (logout stNull) \<noteq> Inr LogoutSuccess
   \<and> local_session_id (snd (logout stNull)) = Some (js ''sess_1000_k3x9q2m1z'')
   \<and> sessions (snd (logout stNull)) (js ''sess_1000_k3x9q2m1z'') = Some sessA"
proof -
  have ne: "js ''sess_1000_k3x9q2m1z'' \<noteq> []" by (simp add: js_def)
  have slot: "local_session_id stNull = Some (js ''sess_1000_k3x9q2m1z'')"
    by (simp add: stNull_def stD_def)
  have row: "sessions stNull (js ''sess_1000_k3x9q2m1z'') = Some sessA"
    by (simp add: stNull_def stD_def)
  have stored: "storedSessionId stNull = Some (js ''sess_1000_k3x9q2m1z'')"
    using ne slot by (simp add: storedSessionId_def truthy_def)
  have run: "logout stNull = (Inl (Native TypeError), stNull)"
    using stored ne by (simp add: logout_def deleteSession_def)
  from slot row run show ?thesis by simp
qed

text \<open>
  C8, amended: in every state a second \<open>logout\<close> returns what the first returned and
  leaves the state the first left.  In every state in which the database is open, or in
  which neither slot holds a token (no session is active), \<open>logout\<close> returns
  \<open>{success: true}\<close>; it deletes the session row of the stored token, which is the
  token of the durable slot when that slot holds one and the token of the ephemeral slot
  otherwise, and no other row; it empties both token slots and the cached account, and
  clears \<open>currentUser\<close>; the stores \<open>users\<close> and \<open>userProgress\<close> are untouched.
\<close>

theorem logout_idempotent:
  "logout (snd (logout s)) = logout s
   \<and> (dbOpen s
        \<or> (local_session_id s = None \<or> local_session_id s = Some [])
          \<and> (session_session_id s = None \<or> session_session_id s = Some [])
      \<longrightarrow> fst (logout s) = Inr LogoutSuccess
          \<and> (\<forall>t. sessions (snd (logout s)) t =
                (if t \<noteq> []
                    \<and> (local_session_id s = Some t
                        \<or> (local_session_id s = None \<or> local_session_id s = Some [])
                          \<and> session_session_id s = Some t)
                 then None else sessions s t))
          \<and> local_session_id (snd (logout s)) = None
          \<and> session_session_id (snd (logout s)) = None
          \<and> local_user_data (snd (logout s)) = None
          \<and> currentUser (snd (logout s)) = None
          \<and> users (snd (logout s)) = users s
          \<and> nextUserId (snd (logout s)) = nextUserId s
          \<and> userProgress (snd (logout s)) = userProgress s
          \<and> dbOpen (snd (logout s)) = dbOpen s)"
proof (intro conjI impI)
  show "logout (snd (logout s)) = logout s"
  proof (cases "fst (logout s)")
    case (Inl m)
    then have "snd (logout s) = s"
      by (auto simp: logout_def split: option.splits sum.splits if_splits)
    then show ?thesis by simp
  next
    case (Inr ok)
    then have cleared: "storedSessionId (snd (logout s)) = None"
      by (auto simp: logout_def storedSessionId_def truthy_def
          split: option.splits sum.splits if_splits)
    from Inr have "logout s = (Inr LogoutSuccess, snd (logout s))"
      by (auto simp: logout_def split: option.splits sum.splits if_splits)
    moreover from Inr have "snd (logout s)\<lparr>local_session_id := None, session_session_id := None,
        local_user_data := None, currentUser := None\<rparr> = snd (logout s)"
      by (auto simp: logout_def split: option.splits sum.splits if_splits)
    ultimately show ?thesis
      using cleared by (simp add: logout_def [of "snd (logout s)"])
  qed
next
  assume scope: "dbOpen s
        \<or> (local_session_id s = None \<or> local_session_id s = Some [])
          \<and> (session_session_id s = None \<or> session_session_id s = Some [])"
  then show "fst (logout s) = Inr LogoutSuccess"
    by (auto simp: logout_def deleteSession_def storedSessionId_def truthy_def
        split: option.splits)
  from scope show "\<forall>t. sessions (snd (logout s)) t =
                (if t \<noteq> []
                    \<and> (local_session_id s = Some t
                        \<or> (local_session_id s = None \<or> local_session_id s = Some [])
                          \<and> session_session_id s = Some t)
                 then None else sessions s t)"
    by (auto simp: logout_def deleteSession_def storedSessionId_def truthy_def
        split: option.splits)
  from scope show "local_session_id (snd (logout s)) = None"
    "session_session_id (snd (logout s)) = None" "local_user_data (snd (logout s)) = None"
    "currentUser (snd (logout s)) = None" "users (snd (logout s)) = users s"
    "nextUserId (snd (logout s)) = nextUserId s" "userProgress (snd (logout s)) = userProgress s"
    "dbOpen (snd (logout s)) = dbOpen s"
    by (auto simp: logout_def deleteSession_def storedSessionId_def truthy_def
        split: option.splits)
qed

text \<open>
  In \<open>stTwo\<close> the durable slot holds the token of the first session and the
  ephemeral slot that of the second: \<open>logout\<close> deletes the row of the first and
  leaves the row of the second.  In \<open>st0\<close> only the ephemeral slot holds a token, and
  its row is deleted.  Without a database and without a token, \<open>logout\<close> succeeds.
\<close>

theorem logout_idempotent_witness:
  "dbOpen stTwo
   \<and> local_session_id stTwo = Some (js ''sess_1000_k3x9q2m1z'')
   \<and> session_session_id stTwo = Some (js ''sess_5000_p0o9i8u7y'')
   \<and> sessions stTwo (js ''sess_1000_k3x9q2m1z'') = Some sessA
   \<and> sessions stTwo (js ''sess_5000_p0o9i8u7y'') = Some sessB
   \<and> fst (logout stTwo) = Inr LogoutSuccess
   \<and> sessions (snd (logout stTwo)) (js ''sess_1000_k3x9q2m1z'') = None
   \<and> sessions (snd (logout stTwo)) (js ''sess_5000_p0o9i8u7y'') = Some sessB
   \<and> local_session_id (snd (logout stTwo)) = None
   \<and> session_session_id (snd (logout stTwo)) = None
   \<and> logout (snd (logout stTwo)) = logout stTwo
   \<and> local_session_id st0 = None
   \<and> session_session_id st0 = Some (js ''sess_1000_k3x9q2m1z'')
   \<and> sessions st0 (js ''sess_1000_k3x9q2m1z'') = Some sess0
   \<and> sessions (snd (logout st0)) (js ''sess_1000_k3x9q2m1z'') = None
   \<and> \<not> dbOpen (emptySystem\<lparr>dbOpen := False\<rparr>)
   \<and> fst (logout (emptySystem\<lparr>dbOpen := False\<rparr>)) = Inr LogoutSuccess"
proof -
  have ne: "js ''sess_1000_k3x9q2m1z'' \<noteq> []" "js ''sess_5000_p0o9i8u7y'' \<noteq> []"
    "js ''sess_5000_p0o9i8u7y'' \<noteq> js ''sess_1000_k3x9q2m1z''"
    by (simp_all add: js_def)
  have two: "dbOpen stTwo" "local_session_id stTwo = Some (js ''sess_1000_k3x9q2m1z'')"
    "session_session_id stTwo = Some (js ''sess_5000_p0o9i8u7y'')"
    "sessions stTwo (js ''sess_1000_k3x9q2m1z'') = Some sessA"
    "sessions stTwo (js ''sess_5000_p0o9i8u7y'') = Some sessB"
    using ne by (simp_all add: stTwo_def stD_def sessB_def)
  have one: "dbOpen st0" "local_session_id st0 = None"
    "session_session_id st0 = Some (js ''sess_1000_k3x9q2m1z'')"
    "sessions st0 (js ''sess_1000_k3x9q2m1z'') = Some sess0"
    by (simp_all add: st0_def sess0_def)
  have none: "\<not> dbOpen (emptySystem\<lparr>dbOpen := False\<rparr>)"
    "local_session_id (emptySystem\<lparr>dbOpen := False\<rparr>) = None"
    "session_session_id (emptySystem\<lparr>dbOpen := False\<rparr>) = None"
    by (simp_all add: emptySystem_def)
  from logout_idempotent [of stTwo] two ne
  have a: "fst (logout stTwo) = Inr LogoutSuccess
     \<and> sessions (snd (logout stTwo)) (js ''sess_1000_k3x9q2m1z'') = None
     \<and> sessions (snd (logout stTwo)) (js ''sess_5000_p0o9i8u7y'') = Some sessB
     \<and> local_session_id (snd (logout stTwo)) = None
     \<and> session_session_id (snd (logout stTwo)) = None
     \<and> logout (snd (logout stTwo)) = logout stTwo"
    by simp
  from logout_idempotent [of st0] one ne
  have b: "sessions (snd (logout st0)) (js ''sess_1000_k3x9q2m1z'') = None"
    by simp
  from logout_idempotent [of "emptySystem\<lparr>dbOpen := False\<rparr>"] none
  have c: "fst (logout (emptySystem\<lparr>dbOpen := False\<rparr>)) = Inr LogoutSuccess"
    by simp
  from two one(2-4) none(1) a b c show ?thesis by simp
qed

section \<open>Lengths of the stored names (C9)\<close>

text \<open>
  What is stored is the trimmed input.
\<close>

lemma registerUser_stored_names:
  assumes "registerUser lc s d tUser tProgress env = (AuthSuccess u sess, s')"
  shows "map_option username (recordOf (getUserById s' (userId sess)))
           = Some (trim (in_username d))"
    and "map_option firstName (recordOf (getUserById s' (userId sess)))
           = Some (trim (in_firstName d))"
    and "map_option lastName (recordOf (getUserById s' (userId sess)))
           = Some (trim (in_lastName d))"
  using registerUser_stored_account(1) [OF assms] by (simp_all add: newUser_fields recordOf_def)

text \<open>
  C9 states that the stored username has at least 3 characters, and the stored first and
  last name at least 2, as trimmed.  The code checks the lengths of the input before it
  trims.  At a username of one letter and two spaces: the input has three characters and
  passes validation, and the username stored is the single letter.
\<close>

theorem registerUser_short_username:
  "length (in_username annShort) = 3
   \<and> validateUserData annShort = Valid
   \<and> fst (registerUser plainTable emptySystem annShort 1000 1001 env0)
       = AuthSuccess (sanitizeUser (newUser plainTable annShort 1000)) sess0
   \<and> map_option username
         (recordOf (getUserById (snd (registerUser plainTable emptySystem annShort 1000 1001 env0)) 1))
       = Some (js ''a'')
   \<and> length (js ''a'') = 1"
proof -
  have rm: "in_rememberMe annShort = False" by (simp add: annShort_def ann_def)
  have name: "trim (in_username annShort) = js ''a''"
    by (simp add: annShort_def string_ops)
  have st: "snd (registerUser plainTable emptySystem annShort 1000 1001 env0)
              = st0\<lparr>users := [(newUser plainTable annShort 1000)\<lparr>uid := Some 1\<rparr>]\<rparr>"
    using validate_annShort generateSessionId_0 rm
    by (simp add: registerUser_def getUserByEmail_def storeUser_def hasKey_def indexConflict_def
        keyFor_def initializeUserProgress_def createSession_def Let_def env0_def newUser_fields
        sess0_def maxTime_def emptySystem_def st0_def progress0_def)
  have res: "fst (registerUser plainTable emptySystem annShort 1000 1001 env0)
       = AuthSuccess (sanitizeUser (newUser plainTable annShort 1000)) sess0"
    using validate_annShort generateSessionId_0 rm
    by (simp add: registerUser_def getUserByEmail_def storeUser_def hasKey_def indexConflict_def
        keyFor_def initializeUserProgress_def createSession_def Let_def env0_def newUser_fields
        sess0_def maxTime_def emptySystem_def)
  have stored: "map_option username
      (recordOf (getUserById (snd (registerUser plainTable emptySystem annShort 1000 1001 env0)) 1))
        = Some (js ''a'')"
    unfolding st using name by (simp add: getUserById_def recordOf_def newUser_fields)
  have "length (in_username annShort) = 3" by (simp add: annShort_def js_def)
  moreover have "length (js ''a'') = 1" by (simp add: js_def)
  ultimately show ?thesis using validate_annShort res stored by simp
qed

section \<open>The durable token takes precedence (C10)\<close>

text \<open>
  C10: let the durable slot hold the token of a stored session that is not expired and
  whose account exists.  When \<open>authenticateUser\<close> then succeeds with
  \<open>rememberMe = false\<close> for another account, and the session id it generates is not
  that token, the new token is in the ephemeral slot only, the durable slot still holds
  the old token, and \<open>getCurrentUser\<close> returns the account of the old session, not
  the one that has just been authenticated.
\<close>

theorem durable_token_wins:
  assumes durable: "local_session_id s = Some tok" "tok \<noteq> []"
    and row: "sessions s tok = Some old"
    and owner: "getUserById s (userId old) = Inr (Some owner)"
    and auth: "authenticateUser lc s e password False tLogin env = (AuthSuccess u sess, s2)"
    and fresh: "sessionId sess \<noteq> tok"
    and other: "uid u \<noteq> Some (userId old)"
    and live: "\<not> isSessionExpired now old"
  shows "session_session_id s2 = Some (sessionId sess)
         \<and> local_session_id s2 = Some tok
         \<and> userId sess \<noteq> userId old
         \<and> getCurrentUser s2 now = (Inr (Some (sanitizeUser owner)), s2)"
proof -
  from authenticateUser_success [OF auth] obtain acct key s1 s1'
    where u: "u = sanitizeUser acct" and key: "uid acct = Some key"
      and ll: "updateLastLogin s (Some key) tLogin = Inr s1"
      and cs: "createSession s1 key False env = Inr (sess, s1')"
      and s2: "s2 = s1'\<lparr>currentUser := Some acct\<rparr>"
    by blast
  from other u key have ne: "key \<noteq> userId old" by (simp add: sanitizeUser_def)
  have loc: "local_session_id s2 = Some tok"
    using durable(1) updateLastLogin_frame(3) [OF ll] createSession_tokens(1) [OF cs]
    by (simp add: s2)
  have eph: "session_session_id s2 = Some (sessionId sess)"
    using createSession_tokens(2) [OF cs] by (simp add: s2)
  have rows: "sessions s2 tok = Some old"
    using row fresh updateLastLogin_frame(2) [OF ll] createSession_tokens(3) [OF cs]
    by (simp add: s2)
  have db: "dbOpen s2"
    using createSession_frame(8) [OF cs] by (simp add: s2)
  have acc: "getUserById s2 (userId old) = Inr (Some owner)"
    using owner updateLastLogin_getUserById [OF ll ne] createSession_frame(2) [OF cs]
      updateLastLogin_frame(7,8) [OF ll] db
    by (simp add: s2 getUserById_def)
  have stored: "storedSessionId s2 = Some tok"
    using loc durable(2) by (simp add: storedSessionId_def truthy_def)
  have "getCurrentUser s2 now = (Inr (Some (sanitizeUser owner)), s2)"
    using stored durable(2) rows live acc db by (simp add: getCurrentUser_def getSession_def)
  moreover have "userId sess \<noteq> userId old"
    using createSession_frame(4) [OF cs] ne by simp
  ultimately show ?thesis using loc eph by simp
qed

theorem durable_token_wins_witness:
  "local_session_id stD = Some (js ''sess_1000_k3x9q2m1z'')
   \<and> sessions stD (js ''sess_1000_k3x9q2m1z'') = Some sessA
   \<and> getUserById stD (userId sessA) = Inr (Some user0)
   \<and> \<not> isSessionExpired 6000 sessA
   \<and> fst (authenticateUser plainTable stD (js ''B@Y.org'') (js ''Secret99x'') False 5000 env1)
       = AuthSuccess (sanitizeUser user1) sessB
   \<and> fst (getCurrentUser
            (snd (authenticateUser plainTable stD (js ''B@Y.org'') (js ''Secret99x'') False 5000 env1)) 6000)
       = Inr (Some (sanitizeUser user0))"
proof -
  let ?s2 = "snd (authenticateUser plainTable stD (js ''B@Y.org'') (js ''Secret99x'') False 5000 env1)"
  have durable: "local_session_id stD = Some (js ''sess_1000_k3x9q2m1z'')"
    by (simp add: stD_def)
  have ne: "js ''sess_1000_k3x9q2m1z'' \<noteq> []" by (simp add: js_def)
  have row: "sessions stD (js ''sess_1000_k3x9q2m1z'') = Some sessA"
    by (simp add: stD_def)
  have owner: "getUserById stD (userId sessA) = Inr (Some user0)"
    by (simp add: getUserById_def) (simp add: stD_def sessA_def user0_fields)
  have auth: "authenticateUser plainTable stD (js ''B@Y.org'') (js ''Secret99x'') False 5000 env1
                = (AuthSuccess (sanitizeUser user1) sessB, ?s2)"
    using authenticate_bob by (simp add: prod_eq_iff)
  have fresh: "sessionId sessB \<noteq> js ''sess_1000_k3x9q2m1z''"
    by (simp add: sessB_def js_def)
  have other: "uid (sanitizeUser user1) \<noteq> Some (userId sessA)"
    by (simp add: sanitizeUser_def user1_fields sessA_def)
  have live: "\<not> isSessionExpired 6000 sessA"
    by (simp add: isSessionExpired_def sessA_def)
  from durable_token_wins [OF durable ne row owner auth fresh other live]
  have "fst (getCurrentUser ?s2 6000) = Inr (Some (sanitizeUser user0))" by simp
  with durable row owner live authenticate_bob show ?thesis by blast
qed

end
